theory Spec2Isabelle
  imports Main "HOL-Library.Word"
begin

section \<open>Span-latch manager: data model\<close>

text \<open>
  The second half of \<^verbatim>\<open>hashjoiner.go\<close> is package \<^verbatim>\<open>spanlatch\<close>. Its collaborators
  (\<^verbatim>\<open>spanset\<close>, \<^verbatim>\<open>hlc\<close>, \<^verbatim>\<open>roachpb\<close>, the interval btree, the latch list and the
  signal) are declared elsewhere in the repository; each is modelled below from what the
  specification says about it.
\<close>

text \<open>
  Modelled from the spec: \<^verbatim>\<open>spanset.SpanScope\<close> and \<^verbatim>\<open>spanset.SpanAccess\<close>, the two
  enumerations the manager's arrays are indexed by ("Scope: one of {Global, Local}",
  "Access: one of {ReadOnly, ReadWrite}"). The loops
  \<^verbatim>\<open>for s := SpanScope(0); s < NumSpanScope; s++\<close> visit them in this order. A value outside
  the enumeration (the \<^verbatim>\<open>panic("unknown scope")\<close> and \<^verbatim>\<open>panic("unknown access")\<close>
  branches) is excluded by the type.
\<close>

datatype SpanScope = SpanGlobal | SpanLocal

datatype SpanAccess = SpanReadOnly | SpanReadWrite

definition allScopes :: "SpanScope list" where
  "allScopes = [SpanGlobal, SpanLocal]"

definition allAccesses :: "SpanAccess list" where
  "allAccesses = [SpanReadOnly, SpanReadWrite]"

text \<open>
  Modelled from the spec: \<^verbatim>\<open>hlc.Timestamp\<close>, "a hybrid-logical clock value with a
  distinguished empty value": a wall time and a logical counter, both counts, compared
  lexicographically; the empty timestamp is the zero value \<^verbatim>\<open>hlc.Timestamp{}\<close>, which is
  therefore below every other clock reading.
\<close>

record Timestamp =
  WallTime :: nat
  Logical :: nat

definition zeroTimestamp :: Timestamp where
  "zeroTimestamp = \<lparr>WallTime = 0, Logical = 0\<rparr>"

definition IsEmpty :: "Timestamp \<Rightarrow> bool" where
  "IsEmpty t = (WallTime t = 0 \<and> Logical t = 0)"

definition Less :: "Timestamp \<Rightarrow> Timestamp \<Rightarrow> bool" where
  "Less t s = (WallTime t < WallTime s \<or> (WallTime t = WallTime s \<and> Logical t < Logical s))"

text \<open>
  Modelled from the spec: \<^verbatim>\<open>roachpb.Span\<close>, "an interval [start, end) over an ordered
  key domain"; keys are taken from the naturals.
\<close>

record Span =
  Key :: nat
  EndKey :: nat

definition overlaps :: "Span \<Rightarrow> Span \<Rightarrow> bool" where
  "overlaps a b = (Key a < EndKey b \<and> Key b < EndKey a)"

text \<open>
  A \<^verbatim>\<open>*signal\<close> is the address of a one-shot signal. A latch stores the address of its
  guard's signal in \<^verbatim>\<open>done\<close>; whether a signal has fired is part of the shared state
  (\<open>world\<close> below). The \<^verbatim>\<open>next\<close>/\<^verbatim>\<open>prev\<close> links of a latch are represented by the
  read set that holds it.
\<close>

type_synonym signal_ref = nat

record latch =
  latch_id :: "64 word"
  latch_span :: Span
  latch_ts :: Timestamp
  latch_done :: signal_ref

definition zeroLatch :: latch where
  "zeroLatch = \<lparr>latch_id = 0, latch_span = \<lparr>Key = 0, EndKey = 0\<rparr>,
                 latch_ts = zeroTimestamp, latch_done = 0\<rparr>"

text \<open>
  The guard. The source packs \<^verbatim>\<open>[NumSpanScope][NumSpanAccess][]latch\<close> into pointers and
  32-bit lengths ("but half the size"); the model keeps the slices themselves.
  \<open>guard_done\<close> is the address of the signal embedded in the guard.
\<close>

record Guard =
  guard_done :: signal_ref
  guard_latches :: "SpanScope \<Rightarrow> SpanAccess \<Rightarrow> latch list"

definition latches :: "Guard \<Rightarrow> SpanScope \<Rightarrow> SpanAccess \<Rightarrow> latch list" where
  "latches lg s a = guard_latches lg s a"

datatype panic = SliceBoundsOutOfRange | IndexOutOfRange | AllocTooLarge
  | UnhandledState | MakeNegativeLen

text \<open>\<^verbatim>\<open>lg.setLatches(s, a, latches)\<close> takes \<^verbatim>\<open>&latches[0]\<close>, which panics on an empty slice.\<close>

definition setLatches :: "Guard \<Rightarrow> SpanScope \<Rightarrow> SpanAccess \<Rightarrow> latch list \<Rightarrow> panic + Guard" where
  "setLatches lg s a ls =
     (if ls = [] then Inl IndexOutOfRange
      else Inr (lg\<lparr>guard_latches := (guard_latches lg)(s := (guard_latches lg s)(a := ls))\<rparr>))"

text \<open>Go's slice expressions \<^verbatim>\<open>xs[:n]\<close> and \<^verbatim>\<open>xs[n:]\<close>, with their bounds checks.\<close>

definition slice_to :: "'a list \<Rightarrow> int \<Rightarrow> panic + 'a list" where
  "slice_to xs n = (if 0 \<le> n \<and> n \<le> int (length xs) then Inr (take (nat n) xs)
                    else Inl SliceBoundsOutOfRange)"

definition slice_from :: "'a list \<Rightarrow> int \<Rightarrow> panic + 'a list" where
  "slice_from xs n = (if 0 \<le> n \<and> n \<le> int (length xs) then Inr (drop (nat n) xs)
                      else Inl SliceBoundsOutOfRange)"

text \<open>
  \<^verbatim>\<open>allocGuardAndLatches\<close>: the guard and a latch array of 1, 2, 4 or 8 elements are
  allocated together and the array is cut to \<^verbatim>\<open>nLatches\<close>; beyond 8 the latches come from
  \<^verbatim>\<open>make\<close>. The address \<open>p\<close> is what \<^verbatim>\<open>new\<close> returns.
\<close>

definition newGuardAt :: "signal_ref \<Rightarrow> Guard" where
  "newGuardAt p = \<lparr>guard_done = p, guard_latches = (\<lambda>s a. [])\<rparr>"

definition allocGuardAndLatches :: "signal_ref \<Rightarrow> int \<Rightarrow> panic + (Guard \<times> latch list)" where
  "allocGuardAndLatches p nLatches =
     (if nLatches \<le> 1 then
        (case slice_to (replicate 1 zeroLatch) nLatches of
           Inl e \<Rightarrow> Inl e | Inr ls \<Rightarrow> Inr (newGuardAt p, ls))
      else if nLatches \<le> 2 then
        (case slice_to (replicate 2 zeroLatch) nLatches of
           Inl e \<Rightarrow> Inl e | Inr ls \<Rightarrow> Inr (newGuardAt p, ls))
      else if nLatches \<le> 4 then
        (case slice_to (replicate 4 zeroLatch) nLatches of
           Inl e \<Rightarrow> Inl e | Inr ls \<Rightarrow> Inr (newGuardAt p, ls))
      else if nLatches \<le> 8 then
        (case slice_to (replicate 8 zeroLatch) nLatches of
           Inl e \<Rightarrow> Inl e | Inr ls \<Rightarrow> Inr (newGuardAt p, ls))
      else Inr (newGuardAt p, replicate (nat nLatches) zeroLatch))"

text \<open>
  Modelled from the spec: \<^verbatim>\<open>spanset.SpanSet\<close>, the spans a request declares, by access
  and scope; \<^verbatim>\<open>spans.GetSpans(a, s)\<close> is application.
\<close>

type_synonym SpanSet = "SpanAccess \<Rightarrow> SpanScope \<Rightarrow> Span list"

definition GetSpans :: "SpanSet \<Rightarrow> SpanAccess \<Rightarrow> SpanScope \<Rightarrow> Span list" where
  "GetSpans spans a s = spans a s"

subsection \<open>Timestamp filters\<close>

type_synonym ignoreFn = "Timestamp \<Rightarrow> Timestamp \<Rightarrow> bool"

definition ignoreLater :: ignoreFn where
  "ignoreLater ts other = (\<not> IsEmpty ts \<and> Less ts other)"

definition ignoreEarlier :: ignoreFn where
  "ignoreEarlier ts other = (\<not> IsEmpty other \<and> Less other ts)"

definition ignoreNothing :: ignoreFn where
  "ignoreNothing ts other = False"

fun ifGlobal :: "Timestamp \<Rightarrow> SpanScope \<Rightarrow> Timestamp" where
  "ifGlobal ts SpanGlobal = ts"
| "ifGlobal ts SpanLocal = zeroTimestamp"

subsection \<open>newGuard\<close>

text \<open>The (scope, access) pairs in the order the nested loops visit them.\<close>

definition scopeAccessPairs :: "(SpanScope \<times> SpanAccess) list" where
  "scopeAccessPairs = concat (map (\<lambda>s. map (\<lambda>a. (s, a)) allAccesses) allScopes)"

text \<open>The first loop of \<^verbatim>\<open>newGuard\<close>: \<^verbatim>\<open>nLatches += len(spans.GetSpans(a, s))\<close>.\<close>

definition countLatches :: "SpanSet \<Rightarrow> int" where
  "countLatches spans =
     foldl (\<lambda>n (s, a). n + int (length (GetSpans spans a s))) 0 scopeAccessPairs"

text \<open>
  The body of the inner \<^verbatim>\<open>for i := range ssLatches\<close> loop initialises the first \<open>n\<close>
  latches of the remaining allocation.
\<close>

definition initLatch :: "Timestamp \<Rightarrow> SpanScope \<Rightarrow> Guard \<Rightarrow> latch \<Rightarrow> Span \<Rightarrow> latch" where
  "initLatch ts s guard la sp =
     la\<lparr>latch_span := sp, latch_ts := ifGlobal ts s, latch_done := guard_done guard\<rparr>"

definition newGuard_body ::
  "SpanSet \<Rightarrow> Timestamp \<Rightarrow> (SpanScope \<times> SpanAccess) \<Rightarrow> (Guard \<times> latch list)
     \<Rightarrow> panic + (Guard \<times> latch list)" where
  "newGuard_body spans ts sa st =
     (case (sa, st) of ((s, a), (guard, ls)) \<Rightarrow>
        let ss = GetSpans spans a s; n = int (length ss) in
        if n = 0 then Inr (guard, ls)
        else
          (case slice_to ls n of
             Inl e \<Rightarrow> Inl e
           | Inr ssLatches \<Rightarrow>
               (case setLatches guard s a (map2 (initLatch ts s guard) ssLatches ss) of
                  Inl e \<Rightarrow> Inl e
                | Inr guard' \<Rightarrow>
                    (case slice_from ls n of
                       Inl e \<Rightarrow> Inl e
                     | Inr rest \<Rightarrow> Inr (guard', rest)))))"

fun newGuard_loop ::
  "SpanSet \<Rightarrow> Timestamp \<Rightarrow> (SpanScope \<times> SpanAccess) list \<Rightarrow> (Guard \<times> latch list)
     \<Rightarrow> panic + (Guard \<times> latch list)" where
  "newGuard_loop spans ts [] st = Inr st"
| "newGuard_loop spans ts (sa # sas) st =
     (case newGuard_body spans ts sa st of
        Inl e \<Rightarrow> Inl e
      | Inr st' \<Rightarrow> newGuard_loop spans ts sas st')"

definition newGuard :: "signal_ref \<Rightarrow> SpanSet \<Rightarrow> Timestamp \<Rightarrow> panic + Guard" where
  "newGuard p spans ts =
     (case allocGuardAndLatches p (countLatches spans) of
        Inl e \<Rightarrow> Inl e
      | Inr st \<Rightarrow>
          (case newGuard_loop spans ts scopeAccessPairs st of
             Inl e \<Rightarrow> Inl e
           | Inr (guard, rest) \<Rightarrow>
               if length rest \<noteq> 0 then Inl AllocTooLarge else Inr guard))"

text \<open>The guard every \<^verbatim>\<open>newGuard\<close> run ends with, after the pairs \<open>sas\<close> have been visited.\<close>

definition filled :: "SpanSet \<Rightarrow> Timestamp \<Rightarrow> Guard \<Rightarrow> (SpanScope \<times> SpanAccess) list \<Rightarrow> Guard" where
  "filled spans ts g sas =
     g\<lparr>guard_latches := (\<lambda>s a. if (s, a) \<in> set sas \<and> GetSpans spans a s \<noteq> []
            then map (initLatch ts s g zeroLatch) (GetSpans spans a s) else guard_latches g s a)\<rparr>"

section \<open>Span-latch manager: signals, trees and the manager\<close>

text \<open>
  Modelled from the spec: the signal, a "one-shot broadcast: \<^verbatim>\<open>signal()\<close> fires;
  \<^verbatim>\<open>signaled()\<close> returns fire state without blocking; \<^verbatim>\<open>signalChan()\<close> returns a channel that
  completes once signaled. Once fired, remains fired." The state other goroutines share
  with a waiter is the set of fired signals and the context: \<open>ctx_err\<close> is
  \<^verbatim>\<open>ctx.Err()\<close>, and \<^verbatim>\<open>ctx.Done()\<close> is closed exactly when it is not \<open>None\<close>. Go's
  \<^verbatim>\<open>select\<close> picks any ready case; \<open>pick_ctx\<close> is the scheduler's choice when both
  cases are ready.
\<close>

datatype ctx_error = Canceled | DeadlineExceeded

record world =
  fired :: "signal_ref set"
  ctx_err :: "ctx_error option"
  pick_ctx :: bool

definition signaled :: "world \<Rightarrow> signal_ref \<Rightarrow> bool" where
  "signaled w r = (r \<in> fired w)"

definition signal :: "world \<Rightarrow> signal_ref \<Rightarrow> world" where
  "signal w r = w\<lparr>fired := insert r (fired w)\<rparr>"

text \<open>
  What the other goroutines do while a waiter runs is a schedule: a list of ticks, each
  firing some signals, possibly ending the context, and fixing the scheduler's choice.
  Every observation the waiter makes (a call of \<^verbatim>\<open>signaled()\<close>, the entry of a
  \<^verbatim>\<open>select\<close>) comes after the next tick; when the schedule is used up nothing changes any
  more. Ticks only add fired signals, and a context that is done stays done.
\<close>

record tick =
  tick_fired :: "signal_ref list"
  tick_ctx :: "ctx_error option"
  tick_pick_ctx :: bool

definition apply_tick :: "tick \<Rightarrow> world \<Rightarrow> world" where
  "apply_tick t w =
     \<lparr>fired = fired w \<union> set (tick_fired t),
      ctx_err = (case ctx_err w of Some e \<Rightarrow> Some e | None \<Rightarrow> tick_ctx t),
      pick_ctx = tick_pick_ctx t\<rparr>"

fun observe :: "world \<Rightarrow> tick list \<Rightarrow> world \<times> tick list" where
  "observe w [] = (w, [])"
| "observe w (t # ticks) = (apply_tick t w, ticks)"

datatype selected = SignalFired | CtxDone

definition select_ready :: "world \<Rightarrow> signal_ref \<Rightarrow> selected option" where
  "select_ready w r =
     (if signaled w r \<and> ctx_err w \<noteq> None then Some (if pick_ctx w then CtxDone else SignalFired)
      else if signaled w r then Some SignalFired
      else if ctx_err w \<noteq> None then Some CtxDone
      else None)"

text \<open>
  \<^verbatim>\<open>select { case <-latch.done.signalChan(): case <-done: return ctx.Err() }\<close> blocks until a
  case is ready. \<open>None\<close>: no case ever becomes ready, the goroutine blocks for ever.
\<close>

fun select_loop :: "world \<Rightarrow> tick list \<Rightarrow> signal_ref \<Rightarrow> (selected \<times> world \<times> tick list) option" where
  "select_loop w [] r =
     (case select_ready w r of None \<Rightarrow> None | Some c \<Rightarrow> Some (c, w, []))"
| "select_loop w (t # ticks) r =
     (case select_ready w r of
        None \<Rightarrow> select_loop (apply_tick t w) ticks r
      | Some c \<Rightarrow> Some (c, w, t # ticks))"

definition select_wait :: "world \<Rightarrow> tick list \<Rightarrow> signal_ref \<Rightarrow> (selected \<times> world \<times> tick list) option" where
  "select_wait w ticks r = (case observe w ticks of (w', ticks') \<Rightarrow> select_loop w' ticks' r)"

text \<open>
  Modelled from the spec: the interval btree, "a black-box ordered map supporting overlap
  iteration and copy-on-write clone", with \<^verbatim>\<open>Set\<close>, \<^verbatim>\<open>Delete\<close>, \<^verbatim>\<open>Clone\<close>, \<^verbatim>\<open>Reset\<close> and an
  iterator (\<^verbatim>\<open>FirstOverlap\<close>, \<^verbatim>\<open>NextOverlap\<close>, \<^verbatim>\<open>Valid\<close>, \<^verbatim>\<open>Cur\<close>). A tree is the list of the
  latches it holds; a latch is held once; a clone is a value, which later changes of the
  original do not reach. \<open>btree_overlapping\<close> lists what the iterator visits.
\<close>

type_synonym btree = "latch list"

definition btree_empty :: btree where
  "btree_empty = []"

definition btree_Set :: "latch \<Rightarrow> btree \<Rightarrow> btree" where
  "btree_Set la t = (if la \<in> set t then t else t @ [la])"

definition btree_Delete :: "latch \<Rightarrow> btree \<Rightarrow> btree" where
  "btree_Delete la t = removeAll la t"

definition btree_Clone :: "btree \<Rightarrow> btree" where
  "btree_Clone t = t"

definition btree_overlapping :: "btree \<Rightarrow> latch \<Rightarrow> latch list" where
  "btree_overlapping t search = filter (\<lambda>la. overlaps (latch_span search) (latch_span la)) t"

text \<open>
  Modelled from the spec: the read set, a "doubly-linked list of latches"
  (\<^verbatim>\<open>latchList\<close> with \<^verbatim>\<open>len\<close>, \<^verbatim>\<open>front\<close>, \<^verbatim>\<open>pushBack\<close>, \<^verbatim>\<open>remove\<close>). A latch is linked
  (\<^verbatim>\<open>la.next != nil\<close>, \<^verbatim>\<open>inReadSet\<close>) exactly while the read set of its scope holds it.
\<close>

type_synonym latchList = "latch list"

definition pushBack :: "latch \<Rightarrow> latchList \<Rightarrow> latchList" where
  "pushBack la rs = rs @ [la]"

definition latchList_remove :: "latch \<Rightarrow> latchList \<Rightarrow> latchList" where
  "latchList_remove la rs = removeAll la rs"

record scopedManager =
  readSet :: latchList
  trees :: "SpanAccess \<Rightarrow> btree"

definition inReadSet :: "scopedManager \<Rightarrow> latch \<Rightarrow> bool" where
  "inReadSet sm la = (la \<in> set (readSet sm))"

text \<open>\<open>mu\<close> is true while the mutex is held.\<close>

record Manager =
  mu :: bool
  idAlloc :: "64 word"
  scopes :: "SpanScope \<Rightarrow> scopedManager"

text \<open>"Manager's zero value can be used directly."\<close>

definition zeroScopedManager :: scopedManager where
  "zeroScopedManager = \<lparr>readSet = [], trees = (\<lambda>a. btree_empty)\<rparr>"

definition zeroManager :: Manager where
  "zeroManager = \<lparr>mu = False, idAlloc = 0, scopes = (\<lambda>s. zeroScopedManager)\<rparr>"

definition mu_Lock :: "Manager \<Rightarrow> Manager" where
  "mu_Lock m = m\<lparr>mu := True\<rparr>"

definition mu_Unlock :: "Manager \<Rightarrow> Manager" where
  "mu_Unlock m = m\<lparr>mu := False\<rparr>"

type_synonym snapshot = "SpanScope \<Rightarrow> SpanAccess \<Rightarrow> btree"

definition zeroSnapshot :: snapshot where
  "zeroSnapshot = (\<lambda>s a. btree_empty)"

subsection \<open>sequence\<close>

text \<open>\<^verbatim>\<open>for sm.readSet.len > 0 { latch := front(); remove(latch); trees[ReadOnly].Set(latch) }\<close>\<close>

function flushReadSetLocked :: "scopedManager \<Rightarrow> scopedManager" where
  "flushReadSetLocked sm =
     (case readSet sm of
        [] \<Rightarrow> sm
      | la # rest \<Rightarrow>
          flushReadSetLocked
            (sm\<lparr>readSet := latchList_remove la (readSet sm),
                trees := (trees sm)(SpanReadOnly := btree_Set la (trees sm SpanReadOnly))\<rparr>))"
  by pat_completeness auto
termination
  by (relation "measure (\<lambda>sm. length (readSet sm))")
     (auto simp: latchList_remove_def less_Suc_eq_le)

declare flushReadSetLocked.simps [simp del]

definition snapshot_scope :: "SpanSet \<Rightarrow> SpanScope \<Rightarrow> (Manager \<times> snapshot) \<Rightarrow> (Manager \<times> snapshot)" where
  "snapshot_scope spans s st =
     (case st of (m, snap) \<Rightarrow>
        let reading = length (GetSpans spans SpanReadOnly s) > 0;
            writing = length (GetSpans spans SpanReadWrite s) > 0;
            (m1, snap1) =
              (if writing then
                 let sm = flushReadSetLocked (scopes m s) in
                 (m\<lparr>scopes := (scopes m)(s := sm)\<rparr>,
                  snap(s := (snap s)(SpanReadOnly := btree_Clone (trees sm SpanReadOnly))))
               else (m, snap))
        in if writing \<or> reading then
             (m1, snap1(s := (snap1 s)(SpanReadWrite :=
                    btree_Clone (trees (scopes m1 s) SpanReadWrite))))
           else (m1, snap1))"

definition snapshotLocked :: "Manager \<Rightarrow> SpanSet \<Rightarrow> Manager \<times> snapshot" where
  "snapshotLocked m spans = foldl (\<lambda>st s. snapshot_scope spans s st) (m, zeroSnapshot) allScopes"

definition nextID :: "Manager \<Rightarrow> 64 word \<times> Manager" where
  "nextID m = (idAlloc m + 1, m\<lparr>idAlloc := idAlloc m + 1\<rparr>)"

text \<open>
  The body of the innermost loop of \<^verbatim>\<open>insertLocked\<close>: the latch gets its ID through the
  pointer into the guard's storage, so the guard's copy is returned updated.
\<close>

definition insert_latch :: "SpanScope \<Rightarrow> SpanAccess \<Rightarrow> Manager \<Rightarrow> latch \<Rightarrow> Manager \<times> latch" where
  "insert_latch s a m la =
     (case nextID m of (i, m1) \<Rightarrow>
        let la' = la\<lparr>latch_id := i\<rparr>; sm = scopes m1 s in
        (case a of
           SpanReadOnly \<Rightarrow>
             (m1\<lparr>scopes := (scopes m1)(s := sm\<lparr>readSet := pushBack la' (readSet sm)\<rparr>)\<rparr>, la')
         | SpanReadWrite \<Rightarrow>
             (m1\<lparr>scopes := (scopes m1)(s := sm\<lparr>trees := (trees sm)(SpanReadWrite :=
                    btree_Set la' (trees sm SpanReadWrite))\<rparr>)\<rparr>, la')))"

fun insert_latches :: "SpanScope \<Rightarrow> SpanAccess \<Rightarrow> Manager \<Rightarrow> latch list \<Rightarrow> Manager \<times> latch list" where
  "insert_latches s a m [] = (m, [])"
| "insert_latches s a m (la # ls) =
     (case insert_latch s a m la of (m1, la') \<Rightarrow>
        (case insert_latches s a m1 ls of (m2, ls') \<Rightarrow> (m2, la' # ls')))"

definition insert_pair :: "(Manager \<times> Guard) \<Rightarrow> (SpanScope \<times> SpanAccess) \<Rightarrow> (Manager \<times> Guard)" where
  "insert_pair st sa =
     (case (st, sa) of ((m, lg), (s, a)) \<Rightarrow>
        (case insert_latches s a m (latches lg s a) of (m', ls') \<Rightarrow>
           (m', lg\<lparr>guard_latches := (guard_latches lg)(s := (guard_latches lg s)(a := ls'))\<rparr>)))"

definition insertLocked :: "Manager \<Rightarrow> Guard \<Rightarrow> Manager \<times> Guard" where
  "insertLocked m lg = foldl insert_pair (m, lg) scopeAccessPairs"

definition sequence :: "Manager \<Rightarrow> signal_ref \<Rightarrow> SpanSet \<Rightarrow> Timestamp \<Rightarrow> panic + (Guard \<times> snapshot \<times> Manager)" where
  "sequence m p spans ts =
     (case newGuard p spans ts of
        Inl e \<Rightarrow> Inl e
      | Inr lg \<Rightarrow>
          (case snapshotLocked (mu_Lock m) spans of (m1, snap) \<Rightarrow>
             (case insertLocked m1 lg of (m2, lg') \<Rightarrow>
                Inr (lg', snap, mu_Unlock m2))))"

subsection \<open>wait\<close>

datatype action = SkipSignaled | SkipIgnored | Selected

datatype wait_result = Blocked | Returned "ctx_error option"

text \<open>
  \<^verbatim>\<open>iterAndWait\<close> over the latches the iterator visits. Besides the result and the state
  it leaves, the model returns a log: for every latch visited, what the waiter did with it.
\<close>

fun iterAndWait_loop ::
  "world \<Rightarrow> tick list \<Rightarrow> latch list \<Rightarrow> Timestamp \<Rightarrow> ignoreFn
     \<Rightarrow> wait_result \<times> world \<times> tick list \<times> (latch \<times> action) list" where
  "iterAndWait_loop w ticks [] ts ignore = (Returned None, w, ticks, [])"
| "iterAndWait_loop w ticks (la # rest) ts ignore =
     (case observe w ticks of (w1, ticks1) \<Rightarrow>
        if signaled w1 (latch_done la) then
          (case iterAndWait_loop w1 ticks1 rest ts ignore of (r, w2, ticks2, log) \<Rightarrow>
             (r, w2, ticks2, (la, SkipSignaled) # log))
        else if ignore ts (latch_ts la) then
          (case iterAndWait_loop w1 ticks1 rest ts ignore of (r, w2, ticks2, log) \<Rightarrow>
             (r, w2, ticks2, (la, SkipIgnored) # log))
        else
          (case select_wait w1 ticks1 (latch_done la) of
             None \<Rightarrow> (Blocked, w1, ticks1, [(la, Selected)])
           | Some (SignalFired, w2, ticks2) \<Rightarrow>
               (case iterAndWait_loop w2 ticks2 rest ts ignore of (r, w3, ticks3, log) \<Rightarrow>
                  (r, w3, ticks3, (la, Selected) # log))
           | Some (CtxDone, w2, ticks2) \<Rightarrow>
               (Returned (ctx_err w2), w2, ticks2, [(la, Selected)])))"

definition iterAndWait ::
  "world \<Rightarrow> tick list \<Rightarrow> btree \<Rightarrow> latch \<Rightarrow> Timestamp \<Rightarrow> ignoreFn
     \<Rightarrow> wait_result \<times> world \<times> tick list \<times> (latch \<times> action) list" where
  "iterAndWait w ticks it search ts ignore =
     iterAndWait_loop w ticks (btree_overlapping it search) ts ignore"

text \<open>
  The \<^verbatim>\<open>switch a\<close> of \<^verbatim>\<open>wait\<close>: which trees of the snapshot a latch of access \<open>a\<close> is
  checked against, in order, and with which filter.
\<close>

fun wait_plan :: "(SpanAccess \<Rightarrow> btree) \<Rightarrow> SpanAccess \<Rightarrow> (btree \<times> ignoreFn) list" where
  "wait_plan tr SpanReadOnly = [(tr SpanReadWrite, ignoreLater)]"
| "wait_plan tr SpanReadWrite = [(tr SpanReadWrite, ignoreNothing), (tr SpanReadOnly, ignoreEarlier)]"

text \<open>
  The calls of \<^verbatim>\<open>iterAndWait\<close> that \<^verbatim>\<open>wait\<close> makes if none returns an error, in the order
  of its three nested loops (scope, access, latch).
\<close>

definition wait_calls :: "Guard \<Rightarrow> snapshot \<Rightarrow> (btree \<times> latch \<times> ignoreFn) list" where
  "wait_calls lg snap =
     concat (map (\<lambda>(s, a).
       concat (map (\<lambda>la. map (\<lambda>(it, ignore). (it, la, ignore)) (wait_plan (snap s) a))
                   (latches lg s a)))
       scopeAccessPairs)"

fun wait_run ::
  "world \<Rightarrow> tick list \<Rightarrow> (btree \<times> latch \<times> ignoreFn) list \<Rightarrow> Timestamp
     \<Rightarrow> wait_result \<times> world \<times> tick list \<times> (latch \<times> action) list" where
  "wait_run w ticks [] ts = (Returned None, w, ticks, [])"
| "wait_run w ticks ((it, la, ignore) # calls) ts =
     (case iterAndWait w ticks it la ts ignore of
        (Returned None, w1, ticks1, log) \<Rightarrow>
          (case wait_run w1 ticks1 calls ts of (r, w2, ticks2, log') \<Rightarrow> (r, w2, ticks2, log @ log'))
      | (r, w1, ticks1, log) \<Rightarrow> (r, w1, ticks1, log))"

definition wait ::
  "world \<Rightarrow> tick list \<Rightarrow> Guard \<Rightarrow> Timestamp \<Rightarrow> snapshot
     \<Rightarrow> wait_result \<times> world \<times> tick list \<times> (latch \<times> action) list" where
  "wait w ticks lg ts snap = wait_run w ticks (wait_calls lg snap) ts"

subsection \<open>Release and Acquire\<close>

definition remove_latch :: "SpanScope \<Rightarrow> SpanAccess \<Rightarrow> Manager \<Rightarrow> latch \<Rightarrow> Manager" where
  "remove_latch s a m la =
     (let sm = scopes m s in
      if inReadSet sm la then
        m\<lparr>scopes := (scopes m)(s := sm\<lparr>readSet := latchList_remove la (readSet sm)\<rparr>)\<rparr>
      else
        m\<lparr>scopes := (scopes m)(s := sm\<lparr>trees := (trees sm)(a := btree_Delete la (trees sm a))\<rparr>)\<rparr>)"

definition removeLocked :: "Manager \<Rightarrow> Guard \<Rightarrow> Manager" where
  "removeLocked m lg =
     foldl (\<lambda>m (s, a). foldl (remove_latch s a) m (latches lg s a)) m scopeAccessPairs"

definition Release :: "world \<Rightarrow> Manager \<Rightarrow> Guard \<Rightarrow> world \<times> Manager" where
  "Release w m lg = (signal w (guard_done lg), mu_Unlock (removeLocked (mu_Lock m) lg))"

text \<open>
  \<^verbatim>\<open>Acquire\<close>. Between the critical section of \<^verbatim>\<open>sequence\<close> and the one of \<^verbatim>\<open>Release\<close> the
  caller holds no lock, and other goroutines may run their own critical sections on the
  manager: \<open>others\<close> is their net effect on it. The deferred \<^verbatim>\<open>snap.close()\<close> only
  drops the caller's clones.
\<close>

datatype acquired = NeverReturns | Panics panic
  | Returns "Guard option" "ctx_error option" world Manager

definition Acquire ::
  "world \<Rightarrow> tick list \<Rightarrow> (Manager \<Rightarrow> Manager) \<Rightarrow> Manager \<Rightarrow> signal_ref \<Rightarrow> SpanSet \<Rightarrow> Timestamp
     \<Rightarrow> acquired" where
  "Acquire w ticks others m p spans ts =
     (case sequence m p spans ts of
        Inl e \<Rightarrow> Panics e
      | Inr (lg, snap, m1) \<Rightarrow>
          (case wait w ticks lg ts snap of
             (Blocked, _) \<Rightarrow> NeverReturns
           | (Returned (Some err), w1, _) \<Rightarrow>
               (case Release w1 (others m1) lg of (w2, m2) \<Rightarrow> Returns None (Some err) w2 m2)
           | (Returned None, w1, _) \<Rightarrow> Returns (Some lg) None w1 (others m1)))"

subsection \<open>Auxiliary notions for the manager's properties\<close>

text \<open>A tree after a list of latches has been \<^verbatim>\<open>Set\<close> into it, in order.\<close>

definition btree_SetAll :: "btree \<Rightarrow> latch list \<Rightarrow> btree" where
  "btree_SetAll t ls = foldl (\<lambda>t la. btree_Set la t) t ls"

text \<open>Latches numbered \<open>b + 1\<close>, \<open>b + 2\<close>, ... in order (64-bit arithmetic).\<close>

fun number_latches :: "64 word \<Rightarrow> latch list \<Rightarrow> latch list" where
  "number_latches b [] = []"
| "number_latches b (la # ls) = la\<lparr>latch_id := b + 1\<rparr> # number_latches (b + 1) ls"

text \<open>The number of spans declared in the pairs the loops visit before \<open>(s, a)\<close>.\<close>

definition spans_before :: "SpanSet \<Rightarrow> SpanScope \<times> SpanAccess \<Rightarrow> nat" where
  "spans_before spans sa =
     (\<Sum>(s, a)\<leftarrow>takeWhile (\<lambda>x. x \<noteq> sa) scopeAccessPairs. length (GetSpans spans a s))"

definition spans_total :: "SpanSet \<Rightarrow> nat" where
  "spans_total spans = (\<Sum>(s, a)\<leftarrow>scopeAccessPairs. length (GetSpans spans a s))"

text \<open>Every latch the manager holds, and every latch of a guard.\<close>

definition manager_latches :: "Manager \<Rightarrow> latch list" where
  "manager_latches m =
     concat (map (\<lambda>s. readSet (scopes m s) @ concat (map (trees (scopes m s)) allAccesses))
       allScopes)"

definition guard_all_latches :: "Guard \<Rightarrow> latch list" where
  "guard_all_latches lg = concat (map (\<lambda>(s, a). latches lg s a) scopeAccessPairs)"

text \<open>IDs are handed out in increasing order: no latch held has an ID above \<open>idAlloc\<close>.\<close>

definition ids_bounded :: "Manager \<Rightarrow> bool" where
  "ids_bounded m = list_all (\<lambda>la. latch_id la \<le> idAlloc m) (manager_latches m)"

text \<open>
  "A latch is reachable from exactly one of the scope's readSet, the scope's readOnly tree,
  the scope's readWrite tree": no latch is both in a read set and in a tree of its scope.
\<close>

definition placed_once :: "Manager \<Rightarrow> bool" where
  "placed_once m =
     list_all (\<lambda>s. list_all (\<lambda>la. list_all (\<lambda>a. la \<notin> set (trees (scopes m s) a)) allAccesses)
        (readSet (scopes m s))) allScopes"

text \<open>The effect of the critical section on one scope, in closed form.\<close>

definition scope_flushed :: "SpanSet \<Rightarrow> SpanScope \<Rightarrow> scopedManager \<Rightarrow> scopedManager" where
  "scope_flushed spans s sm =
     (if GetSpans spans SpanReadWrite s \<noteq> []
      then sm\<lparr>readSet := [], trees := (trees sm)(SpanReadOnly :=
         btree_SetAll (trees sm SpanReadOnly) (readSet sm))\<rparr>
      else sm)"

definition scope_snapshot :: "SpanSet \<Rightarrow> SpanScope \<Rightarrow> scopedManager \<Rightarrow> (SpanAccess \<Rightarrow> btree)" where
  "scope_snapshot spans s sm = (\<lambda>a. case a of
      SpanReadOnly \<Rightarrow> if GetSpans spans SpanReadWrite s \<noteq> []
        then btree_SetAll (trees sm SpanReadOnly) (readSet sm) else btree_empty
    | SpanReadWrite \<Rightarrow> if GetSpans spans SpanReadWrite s \<noteq> [] \<or> GetSpans spans SpanReadOnly s \<noteq> []
        then trees sm SpanReadWrite else btree_empty)"

definition scope_inserted :: "SpanAccess \<Rightarrow> scopedManager \<Rightarrow> latch list \<Rightarrow> scopedManager" where
  "scope_inserted a sm ls = (case a of
      SpanReadOnly \<Rightarrow> sm\<lparr>readSet := readSet sm @ ls\<rparr>
    | SpanReadWrite \<Rightarrow> sm\<lparr>trees := (trees sm)(SpanReadWrite := btree_SetAll (trees sm SpanReadWrite) ls)\<rparr>)"

definition latches_before :: "Guard \<Rightarrow> SpanScope \<times> SpanAccess \<Rightarrow> nat" where
  "latches_before lg sa =
     (\<Sum>(s, a)\<leftarrow>takeWhile (\<lambda>x. x \<noteq> sa) scopeAccessPairs. length (latches lg s a))"

text \<open>A latch is neither in the read set of a scope nor in the tree of an access.\<close>

definition absent :: "Manager \<Rightarrow> SpanScope \<Rightarrow> SpanAccess \<Rightarrow> latch \<Rightarrow> bool" where
  "absent m s a la = (la \<notin> set (readSet (scopes m s)) \<and> la \<notin> set (trees (scopes m s) a))"

section \<open>Hash joiner: data model\<close>

text \<open>
  The first half of \<^verbatim>\<open>hashjoiner.go\<close> is package \<^verbatim>\<open>colexec\<close>. The column layer
  (\<^verbatim>\<open>coldata\<close>, \<^verbatim>\<open>coltypes\<close>), the allocator, \<^verbatim>\<open>sqlbase.JoinType\<close> and the hash table
  with its methods are declared elsewhere in the repository. Counts of rows and columns
  (\<^verbatim>\<open>uint16\<close>, \<^verbatim>\<open>uint32\<close>, \<^verbatim>\<open>uint64\<close> in the source) are naturals: the code below adds
  one to a counter only after comparing it with a bound of the same width, and sizes
  \<^verbatim>\<open>vals.length + 1\<close> are sizes of arrays held in memory.
\<close>

text \<open>
  Modelled from the spec: \<^verbatim>\<open>sqlbase.JoinType\<close>, the "logical join modes (inner,
  left/right/full outer, left semi, left anti)"; \<open>JoinType_other\<close> stands for every
  value that \<^verbatim>\<open>NewEqHashJoinerOp\<close> does not name.
\<close>

datatype JoinType = JoinType_INNER | JoinType_LEFT_OUTER | JoinType_RIGHT_OUTER
  | JoinType_FULL_OUTER | JoinType_LEFT_SEMI | JoinType_LEFT_ANTI | JoinType_other

text \<open>Modelled from the spec: \<^verbatim>\<open>coltypes.T\<close>, the type of a column, by its number.\<close>

type_synonym coltype = nat

text \<open>
  Modelled from the spec: the column vector, "a dense typed array plus a null bitmap",
  and the batch, "a parallel array of typed column vectors, a nullable selection vector of
  row indices, and a length".
\<close>

record Vec =
  vec_data :: "int list"
  vec_nulls :: "nat set"

record Batch =
  batch_length :: nat
  batch_cols :: "Vec list"
  batch_sel :: "nat list option"

definition Length :: "Batch \<Rightarrow> nat" where
  "Length b = batch_length b"

definition SetLength :: "nat \<Rightarrow> Batch \<Rightarrow> Batch" where
  "SetLength n b = b\<lparr>batch_length := n\<rparr>"

definition Selection :: "Batch \<Rightarrow> nat list option" where
  "Selection b = batch_sel b"

definition ColVecs :: "Batch \<Rightarrow> Vec list" where
  "ColVecs b = batch_cols b"

definition ColVec :: "Batch \<Rightarrow> nat \<Rightarrow> panic + Vec" where
  "ColVec b i = (if i < length (batch_cols b) then Inr (batch_cols b ! i) else Inl IndexOutOfRange)"

definition SetNull :: "nat \<Rightarrow> Vec \<Rightarrow> Vec" where
  "SetNull i v = v\<lparr>vec_nulls := insert i (vec_nulls v)\<rparr>"

definition SetNulls :: "Vec \<Rightarrow> Vec" where
  "SetNulls v = v\<lparr>vec_nulls := UNIV\<rparr>"

text \<open>
  Modelled from the spec: \<^verbatim>\<open>Allocator.NewMemBatch(colTypes)\<close>, a batch of length 0 with
  one column per type and no selection; \<open>B\<close> is \<^verbatim>\<open>coldata.BatchSize()\<close>.
\<close>

definition NewMemBatch :: "nat \<Rightarrow> coltype list \<Rightarrow> Batch" where
  "NewMemBatch B colTypes =
     \<lparr>batch_length = 0,
      batch_cols = map (\<lambda>t. \<lparr>vec_data = replicate B 0, vec_nulls = {}\<rparr>) colTypes,
      batch_sel = None\<rparr>"

text \<open>
  An input operator (\<^verbatim>\<open>Operator\<close>, with \<^verbatim>\<open>Next(ctx)\<close>) is the list of the batches it has
  still to return; once the list is used up it returns the zero-length batch.
\<close>

type_synonym source = "Batch list"

definition zeroLengthBatch :: Batch where
  "zeroLengthBatch = \<lparr>batch_length = 0, batch_cols = [], batch_sel = None\<rparr>"

fun source_Next :: "source \<Rightarrow> Batch \<times> source" where
  "source_Next [] = (zeroLengthBatch, [])"
| "source_Next (b # bs) = (b, bs)"

text \<open>
  \<^verbatim>\<open>hashJoinerSourceSpec\<close> and \<^verbatim>\<open>hashJoinerSpec\<close>. The \<^verbatim>\<open>source\<close> field of a source
  spec points to the operator that \<^verbatim>\<open>twoInputNode\<close> holds as \<^verbatim>\<open>inputOne\<close> (left) or
  \<^verbatim>\<open>inputTwo\<close> (right); the state of the two inputs is kept there.
\<close>

record hashJoinerSourceSpec =
  eqCols :: "nat list"
  outCols :: "nat list"
  sourceTypes :: "coltype list"
  outer :: bool

record hashJoinerSpec =
  joinType :: JoinType
  left :: hashJoinerSourceSpec
  right :: hashJoinerSourceSpec
  rightDistinct :: bool

text \<open>
  Modelled from the spec: the hash table, as far as the code of the joiner reads and writes
  it. \<open>ht_vals_length\<close> is \<^verbatim>\<open>vals.length\<close>, \<open>ht_vals_colVecs\<close> is \<^verbatim>\<open>vals.colVecs\<close>.
\<close>

record hashTable =
  ht_vals_length :: nat
  ht_vals_colVecs :: "Vec list"
  ht_valTypes :: "coltype list"
  ht_outCols :: "nat list"
  ht_keys :: "Vec list"
  ht_buckets :: "nat list"
  ht_first :: "nat list"
  ht_groupID :: "nat list"
  ht_toCheck :: "nat list"
  ht_headID :: "nat list"
  ht_same :: "nat list"
  ht_visited :: "bool list"

text \<open>
  \<^verbatim>\<open>hashJoinProber\<close>. Its \<^verbatim>\<open>ht\<close> field points to the hash table of the operator; the model
  keeps that one table in the operator and hands it to the prober's methods.
\<close>

record hashJoinProber =
  batch :: Batch
  prober_outputBatchSize :: nat
  buildIdx :: "nat list"
  probeIdx :: "nat list"
  probeRowUnmatched :: "bool list"
  buildRowMatched :: "bool list"
  prober_spec :: hashJoinerSpec
  prevBatch :: "Batch option"
  prevBatchResumeIdx :: nat

text \<open>\<^verbatim>\<open>hashJoinerState\<close> is an \<^verbatim>\<open>int\<close> with three named values.\<close>

type_synonym hashJoinerState = int

definition hjBuilding :: hashJoinerState where "hjBuilding = 0"
definition hjProbing :: hashJoinerState where "hjProbing = 1"
definition hjEmittingUnmatched :: hashJoinerState where "hjEmittingUnmatched = 2"

text \<open>
  \<^verbatim>\<open>hashJoinEqOp\<close>. \<open>ht\<close> and \<open>prober\<close> are nil until \<^verbatim>\<open>Init\<close> has run.
\<close>

record hashJoinEqOp =
  inputOne :: source
  inputTwo :: source
  spec :: hashJoinerSpec
  ht :: "hashTable option"
  prober :: "hashJoinProber option"
  runningState :: hashJoinerState
  outputBatchSize :: nat
  emittingUnmatchedState_rowIdx :: nat

subsection \<open>NewEqHashJoinerOp\<close>

datatype join_error = JoinTypeNotSupported JoinType

definition NewEqHashJoinerOp ::
  "nat \<Rightarrow> source \<Rightarrow> source \<Rightarrow> nat list \<Rightarrow> nat list \<Rightarrow> coltype list \<Rightarrow> coltype list
     \<Rightarrow> bool \<Rightarrow> JoinType \<Rightarrow> join_error + hashJoinEqOp" where
  "NewEqHashJoinerOp B leftSource rightSource leftEqCols rightEqCols leftTypes rightTypes
       rightDistinct0 joinType0 =
     (let leftOutCols = [0..<length leftTypes];
          rightOutCols = [0..<length rightTypes];
          mk = (\<lambda>leftOuter rightOuter rightDistinct1 rightOutCols1.
            Inr \<lparr>inputOne = leftSource, inputTwo = rightSource,
                 spec = \<lparr>joinType = joinType0,
                   left = \<lparr>eqCols = leftEqCols, outCols = leftOutCols,
                           sourceTypes = leftTypes, outer = leftOuter\<rparr>,
                   right = \<lparr>eqCols = rightEqCols, outCols = rightOutCols1,
                            sourceTypes = rightTypes, outer = rightOuter\<rparr>,
                   rightDistinct = rightDistinct1\<rparr>,
                 ht = None, prober = None, runningState = 0,
                 outputBatchSize = B, emittingUnmatchedState_rowIdx = 0\<rparr>)
      in case joinType0 of
           JoinType_INNER \<Rightarrow> mk False False rightDistinct0 rightOutCols
         | JoinType_RIGHT_OUTER \<Rightarrow> mk False True rightDistinct0 rightOutCols
         | JoinType_LEFT_OUTER \<Rightarrow> mk True False rightDistinct0 rightOutCols
         | JoinType_FULL_OUTER \<Rightarrow> mk True True rightDistinct0 rightOutCols
         | JoinType_LEFT_SEMI \<Rightarrow> mk False False True (take 0 rightOutCols)
         | JoinType_LEFT_ANTI \<Rightarrow> mk False False rightDistinct0 (take 0 rightOutCols)
         | JoinType_other \<Rightarrow> Inl (JoinTypeNotSupported joinType0))"

text \<open>
  \<^verbatim>\<open>newHashJoinProber\<close>: the output batch has the left output columns' types followed by
  the right output columns' types. \<^verbatim>\<open>spec.left.sourceTypes[probeOutCol]\<close> panics on an
  index out of range.
\<close>

fun index_all :: "'a list \<Rightarrow> nat list \<Rightarrow> panic + 'a list" where
  "index_all xs [] = Inr []"
| "index_all xs (i # is) =
     (if i < length xs then
        (case index_all xs is of Inl e \<Rightarrow> Inl e | Inr ys \<Rightarrow> Inr (xs ! i # ys))
      else Inl IndexOutOfRange)"

definition outColTypes :: "hashJoinerSpec \<Rightarrow> panic + coltype list" where
  "outColTypes sp =
     (case index_all (sourceTypes (left sp)) (outCols (left sp)) of
        Inl e \<Rightarrow> Inl e
      | Inr ls \<Rightarrow>
          (case index_all (sourceTypes (right sp)) (outCols (right sp)) of
             Inl e \<Rightarrow> Inl e
           | Inr rs \<Rightarrow> Inr (ls @ rs)))"

definition newHashJoinProber :: "nat \<Rightarrow> hashJoinerSpec \<Rightarrow> nat \<Rightarrow> panic + hashJoinProber" where
  "newHashJoinProber B sp obs =
     (case outColTypes sp of
        Inl e \<Rightarrow> Inl e
      | Inr tys \<Rightarrow>
          Inr \<lparr>batch = NewMemBatch B tys,
               prober_outputBatchSize = obs,
               buildIdx = replicate B 0,
               probeIdx = replicate B 0,
               probeRowUnmatched = (if outer (left sp) then replicate B False else []),
               buildRowMatched = [],
               prober_spec = sp,
               prevBatch = None,
               prevBatchResumeIdx = 0\<rparr>)"

subsection \<open>Collaborators of the joiner\<close>

text \<open>
  Modelled from the spec: the argument of \<^verbatim>\<open>Vec.Copy\<close>, "\<^verbatim>\<open>{colType, src, srcEndIdx,
  selection (16- or 64-bit)}\<close>".
\<close>

record CopySliceArgs =
  ColType :: coltype
  Src :: Vec
  SrcEndIdx :: nat
  Sel :: "nat list option"
  Sel64 :: "nat list option"

text \<open>
  The functions of the repository that the joiner calls and that are not part of this
  file are parameters of the model: the methods of the hash table (\<^verbatim>\<open>build\<close>,
  \<^verbatim>\<open>computeBuckets\<close>, \<^verbatim>\<open>lookupInitial\<close>, \<^verbatim>\<open>distinctCheck\<close>, \<^verbatim>\<open>check\<close>, \<^verbatim>\<open>findNext\<close>) and
  \<^verbatim>\<open>newHashTable\<close>, the prober's \<^verbatim>\<open>distinctCollect\<close> and \<^verbatim>\<open>collect\<close> (they return the
  number of results and update the prober and the table's \<^verbatim>\<open>headID\<close>), \<^verbatim>\<open>Vec.Copy\<close>,
  \<^verbatim>\<open>Batch.ResetInternalBatch\<close> and the constant \<^verbatim>\<open>zeroUint64Column\<close>.
\<close>

record externs =
  x_newHashTable :: "coltype list \<Rightarrow> nat list \<Rightarrow> nat list \<Rightarrow> hashTable"
  x_ht_build :: "hashTable \<Rightarrow> source \<Rightarrow> hashTable \<times> source"
  x_computeBuckets :: "nat \<Rightarrow> nat list option \<Rightarrow> hashTable \<Rightarrow> hashTable"
  x_lookupInitial :: "nat \<Rightarrow> nat list option \<Rightarrow> hashTable \<Rightarrow> hashTable"
  x_distinctCheck :: "nat \<Rightarrow> nat list option \<Rightarrow> hashTable \<Rightarrow> nat \<times> hashTable"
  x_check :: "nat \<Rightarrow> nat list option \<Rightarrow> hashTable \<Rightarrow> nat \<times> hashTable"
  x_findNext :: "nat \<Rightarrow> hashTable \<Rightarrow> hashTable"
  x_distinctCollect :: "hashTable \<Rightarrow> hashJoinProber \<Rightarrow> Batch \<Rightarrow> nat \<Rightarrow> nat list option
     \<Rightarrow> nat \<times> hashTable \<times> hashJoinProber"
  x_collect :: "hashTable \<Rightarrow> hashJoinProber \<Rightarrow> Batch \<Rightarrow> nat \<Rightarrow> nat list option
     \<Rightarrow> nat \<times> hashTable \<times> hashJoinProber"
  x_Copy :: "CopySliceArgs \<Rightarrow> Vec \<Rightarrow> Vec"
  x_ResetInternalBatch :: "Batch \<Rightarrow> Batch"
  x_zeroUint64Column :: "nat list"

text \<open>
  Modelled from the spec: \<^verbatim>\<open>hashTable.allocateVisited\<close>, "allocate
  \<^verbatim>\<open>visited[0..vals.length]\<close>, zero-initialized".
\<close>

definition allocateVisited :: "hashTable \<Rightarrow> hashTable" where
  "allocateVisited h = h\<lparr>ht_visited := replicate (ht_vals_length h + 1) False\<rparr>"

datatype nilpanic = NilPointerDereference

text \<open>A panic of the runtime (an index or a nil pointer) or the operator's own.\<close>

datatype failure = Panic panic | Nil nilpanic

subsection \<open>Init and build\<close>

definition Init :: "externs \<Rightarrow> nat \<Rightarrow> hashJoinEqOp \<Rightarrow> failure + hashJoinEqOp" where
  "Init ext B hj =
     (case newHashJoinProber B (spec hj) (outputBatchSize hj) of
        Inl e \<Rightarrow> Inl (Panic e)
      | Inr p \<Rightarrow>
          Inr (hj\<lparr>ht := Some (x_newHashTable ext (sourceTypes (right (spec hj)))
                              (eqCols (right (spec hj))) (outCols (right (spec hj)))),
                  prober := Some p,
                  runningState := hjBuilding\<rparr>))"

definition build :: "externs \<Rightarrow> hashJoinEqOp \<Rightarrow> failure + hashJoinEqOp" where
  "build ext hj =
     (case (ht hj, prober hj) of
        (Some h, Some p) \<Rightarrow>
          (case x_ht_build ext h (inputTwo hj) of (h1, src) \<Rightarrow>
             let h2 = (if \<not> rightDistinct (spec hj)
                       then allocateVisited (h1\<lparr>ht_same := replicate (ht_vals_length h1 + 1) 0\<rparr>)
                       else h1);
                 p1 = (if outer (right (spec hj))
                       then p\<lparr>buildRowMatched := replicate (ht_vals_length h2) False\<rparr>
                       else p)
             in Inr (hj\<lparr>inputTwo := src, ht := Some h2, prober := Some p1,
                        runningState := hjProbing\<rparr>))
      | _ \<Rightarrow> Inl (Nil NilPointerDereference))"

subsection \<open>Copying columns\<close>

text \<open>
  \<^verbatim>\<open>for outColIdx, inColIdx := range cols { outCol := outCols[outColIdx]; ...;
  outCol.Copy(args) }\<close>: \<open>mk\<close> builds the arguments for a source column (and panics where
  the source indexes out of range), \<open>k\<close> is \<^verbatim>\<open>outColIdx\<close>.
\<close>

fun copy_cols ::
  "(CopySliceArgs \<Rightarrow> Vec \<Rightarrow> Vec) \<Rightarrow> (nat \<Rightarrow> panic + CopySliceArgs) \<Rightarrow> nat list \<Rightarrow> nat
     \<Rightarrow> Vec list \<Rightarrow> panic + Vec list" where
  "copy_cols cp mk [] k dst = Inr dst"
| "copy_cols cp mk (inColIdx # rest) k dst =
     (if k < length dst then
        (case mk inColIdx of
           Inl e \<Rightarrow> Inl e
         | Inr args \<Rightarrow> copy_cols cp mk rest (Suc k) (dst[k := cp args (dst ! k)]))
      else Inl IndexOutOfRange)"

text \<open>Go's \<^verbatim>\<open>xs[lo:hi]\<close> and the write-back of a changed sub-slice into its array.\<close>

definition slice_range :: "'a list \<Rightarrow> nat \<Rightarrow> nat \<Rightarrow> panic + 'a list" where
  "slice_range xs lo hi = (if lo \<le> hi \<and> hi \<le> length xs then Inr (take (hi - lo) (drop lo xs))
                           else Inl SliceBoundsOutOfRange)"

definition put_range :: "'a list \<Rightarrow> nat \<Rightarrow> 'a list \<Rightarrow> 'a list" where
  "put_range xs lo ys = take lo xs @ ys @ drop (lo + length ys) xs"

text \<open>The arguments of the copy from the build table: \<^verbatim>\<open>Sel64: prober.buildIdx\<close>.\<close>

definition build_args :: "hashTable \<Rightarrow> hashJoinProber \<Rightarrow> nat \<Rightarrow> nat \<Rightarrow> panic + CopySliceArgs" where
  "build_args h p nResults inColIdx =
     (if inColIdx < length (ht_vals_colVecs h) \<and> inColIdx < length (ht_valTypes h) then
        Inr \<lparr>ColType = ht_valTypes h ! inColIdx, Src = ht_vals_colVecs h ! inColIdx,
             SrcEndIdx = nResults, Sel = None, Sel64 = Some (buildIdx p)\<rparr>
      else Inl IndexOutOfRange)"

text \<open>The arguments of the copy from the probe batch: \<^verbatim>\<open>Sel: prober.probeIdx\<close>.\<close>

definition probe_args :: "hashJoinProber \<Rightarrow> Batch \<Rightarrow> nat \<Rightarrow> nat \<Rightarrow> panic + CopySliceArgs" where
  "probe_args p b nResults inColIdx =
     (case ColVec b inColIdx of
        Inl e \<Rightarrow> Inl e
      | Inr valCol \<Rightarrow>
          if inColIdx < length (sourceTypes (left (prober_spec p))) then
            Inr \<lparr>ColType = sourceTypes (left (prober_spec p)) ! inColIdx, Src = valCol,
                 SrcEndIdx = nResults, Sel = Some (probeIdx p), Sel64 = None\<rparr>
          else Inl IndexOutOfRange)"

text \<open>
  The projection of the build side, in \<^verbatim>\<open>congregate\<close> and in \<^verbatim>\<open>emitUnmatched\<close>:
  \<^verbatim>\<open>outCols := batch.ColVecs()[off : off+len(ht.outCols)]\<close>, then one \<^verbatim>\<open>Copy\<close> per column.
\<close>

definition project_build ::
  "externs \<Rightarrow> hashTable \<Rightarrow> hashJoinProber \<Rightarrow> nat \<Rightarrow> nat \<Rightarrow> panic + hashJoinProber" where
  "project_build ext h p off nResults =
     (case slice_range (ColVecs (batch p)) off (off + length (ht_outCols h)) of
        Inl e \<Rightarrow> Inl e
      | Inr dst \<Rightarrow>
          (case copy_cols (x_Copy ext) (build_args h p nResults) (ht_outCols h) 0 dst of
             Inl e \<Rightarrow> Inl e
           | Inr dst' \<Rightarrow>
               Inr (p\<lparr>batch := (batch p)\<lparr>batch_cols := put_range (ColVecs (batch p)) off dst'\<rparr>\<rparr>)))"

subsection \<open>emitUnmatched\<close>

text \<open>\<^verbatim>\<open>for i := range left.outCols { batch.ColVec(i).Nulls().SetNulls() }\<close>\<close>

fun set_nulls_cols :: "nat list \<Rightarrow> Vec list \<Rightarrow> panic + Vec list" where
  "set_nulls_cols [] cols = Inr cols"
| "set_nulls_cols (i # is) cols =
     (if i < length cols then set_nulls_cols is (cols[i := SetNulls (cols ! i)])
      else Inl IndexOutOfRange)"

text \<open>
  The loop of \<^verbatim>\<open>emitUnmatched\<close>; the state is \<^verbatim>\<open>nResults\<close>, \<^verbatim>\<open>rowIdx\<close> and
  \<^verbatim>\<open>prober.buildIdx\<close>.
\<close>

function emitUnmatched_loop ::
  "nat \<Rightarrow> nat \<Rightarrow> bool list \<Rightarrow> nat \<Rightarrow> nat \<Rightarrow> nat list \<Rightarrow> panic + (nat \<times> nat \<times> nat list)" where
  "emitUnmatched_loop obs len matched nResults rowIdx bidx =
     (if nResults < obs \<and> rowIdx < len then
        (if rowIdx < length matched then
           (if \<not> matched ! rowIdx then
              (if nResults < length bidx then
                 emitUnmatched_loop obs len matched (Suc nResults) (Suc rowIdx)
                   (bidx[nResults := rowIdx])
               else Inl IndexOutOfRange)
            else emitUnmatched_loop obs len matched nResults (Suc rowIdx) bidx)
         else Inl IndexOutOfRange)
      else Inr (nResults, rowIdx, bidx))"
  by pat_completeness auto
termination
  by (relation "measure (\<lambda>(obs, len, matched, nResults, rowIdx, bidx). len - rowIdx)") auto

declare emitUnmatched_loop.simps [simp del]

definition emitUnmatched :: "externs \<Rightarrow> hashJoinEqOp \<Rightarrow> failure + hashJoinEqOp" where
  "emitUnmatched ext hj =
     (case (ht hj, prober hj) of
        (Some h, Some p) \<Rightarrow>
          (case set_nulls_cols [0..<length (outCols (left (prober_spec p)))] (ColVecs (batch p)) of
             Inl e \<Rightarrow> Inl (Panic e)
           | Inr cols1 \<Rightarrow>
               let p1 = p\<lparr>batch := (batch p)\<lparr>batch_cols := cols1\<rparr>\<rparr> in
               (case emitUnmatched_loop (outputBatchSize hj) (ht_vals_length h)
                       (buildRowMatched p1) 0 (emittingUnmatchedState_rowIdx hj) (buildIdx p1) of
                  Inl e \<Rightarrow> Inl (Panic e)
                | Inr (nResults, rowIdx, bidx) \<Rightarrow>
                    let p2 = p1\<lparr>buildIdx := bidx\<rparr> in
                    (case project_build ext h p2 (length (outCols (left (spec hj)))) nResults of
                       Inl e \<Rightarrow> Inl (Panic e)
                     | Inr p3 \<Rightarrow>
                         Inr (hj\<lparr>emittingUnmatchedState_rowIdx := rowIdx,
                                 prober := Some (p3\<lparr>batch := SetLength nResults (batch p3)\<rparr>)\<rparr>))))
      | _ \<Rightarrow> Inl (Nil NilPointerDereference))"

subsection \<open>congregate\<close>

text \<open>
  \<^verbatim>\<open>for i, isNull := range prober.probeRowUnmatched { if isNull { nulls.SetNull(uint16(i)) } }\<close>
\<close>

definition set_unmatched_nulls :: "bool list \<Rightarrow> Vec \<Rightarrow> Vec" where
  "set_unmatched_nulls unmatched v =
     foldl (\<lambda>v i. if unmatched ! i then SetNull i v else v) v [0..<length unmatched]"

text \<open>
  \<^verbatim>\<open>for outColIdx := range ht.outCols { outCol := batch.ColVec(outColIdx + rightColOffset);
  ... }\<close>
\<close>

fun null_right_cols :: "bool list \<Rightarrow> nat \<Rightarrow> nat list \<Rightarrow> Vec list \<Rightarrow> panic + Vec list" where
  "null_right_cols unmatched off [] cols = Inr cols"
| "null_right_cols unmatched off (outColIdx # rest) cols =
     (if outColIdx + off < length cols then
        null_right_cols unmatched off rest
          (cols[outColIdx + off := set_unmatched_nulls unmatched (cols ! (outColIdx + off))])
      else Inl IndexOutOfRange)"

text \<open>
  The two loops that mark matched build rows:
  \<^verbatim>\<open>prober.buildRowMatched[prober.buildIdx[i]] = true\<close> for \<open>i < nResults\<close>, under
  \<^verbatim>\<open>!prober.probeRowUnmatched[i]\<close> when the left side is outer too.
\<close>

fun mark_matched :: "bool \<Rightarrow> bool list \<Rightarrow> nat list \<Rightarrow> nat list \<Rightarrow> bool list \<Rightarrow> panic + bool list" where
  "mark_matched leftOuter unmatched bidx [] matched = Inr matched"
| "mark_matched leftOuter unmatched bidx (i # is) matched =
     (if leftOuter \<and> \<not> i < length unmatched then Inl IndexOutOfRange
      else if leftOuter \<and> unmatched ! i then mark_matched leftOuter unmatched bidx is matched
      else if \<not> i < length bidx then Inl IndexOutOfRange
      else if \<not> bidx ! i < length matched then Inl IndexOutOfRange
      else mark_matched leftOuter unmatched bidx is (matched[bidx ! i := True]))"

definition congregate ::
  "externs \<Rightarrow> hashTable \<Rightarrow> hashJoinProber \<Rightarrow> nat \<Rightarrow> Batch \<Rightarrow> nat \<Rightarrow> panic + hashJoinProber" where
  "congregate ext h p nResults b batchSize =
     (let rightColOffset = length (outCols (left (prober_spec p))) in
      case (if ht_vals_length h > 0 then project_build ext h p rightColOffset nResults
            else Inr p) of
        Inl e \<Rightarrow> Inl e
      | Inr p1 \<Rightarrow>
          (case (if outer (left (prober_spec p1))
                 then null_right_cols (probeRowUnmatched p1) rightColOffset
                        [0..<length (ht_outCols h)] (ColVecs (batch p1))
                 else Inr (ColVecs (batch p1))) of
             Inl e \<Rightarrow> Inl e
           | Inr cols2 \<Rightarrow>
               (case slice_range cols2 0 (length (outCols (left (prober_spec p1)))) of
                  Inl e \<Rightarrow> Inl e
                | Inr dst \<Rightarrow>
                    (case copy_cols (x_Copy ext) (probe_args p1 b nResults)
                            (outCols (left (prober_spec p1))) 0 dst of
                       Inl e \<Rightarrow> Inl e
                     | Inr dst' \<Rightarrow>
                         let p3 = p1\<lparr>batch := (batch p1)\<lparr>batch_cols := put_range cols2 0 dst'\<rparr>\<rparr> in
                         (case (if outer (right (prober_spec p3))
                                then mark_matched (outer (left (prober_spec p3)))
                                       (probeRowUnmatched p3) (buildIdx p3) [0..<nResults]
                                       (buildRowMatched p3)
                                else Inr (buildRowMatched p3)) of
                            Inl e \<Rightarrow> Inl e
                          | Inr matched \<Rightarrow>
                              Inr (p3\<lparr>buildRowMatched := matched,
                                      batch := SetLength nResults (batch p3)\<rparr>))))))"

subsection \<open>exec\<close>

text \<open>
  \<^verbatim>\<open>for nToCheck > 0 { nToCheck = check(nToCheck, sel); findNext(nToCheck) }\<close>, for
  \<^verbatim>\<open>check\<close> and for \<^verbatim>\<open>distinctCheck\<close>. Nothing in this file bounds the number of
  rounds: \<open>None\<close> is the loop that does not end.
\<close>

partial_function (option) check_loop ::
  "(nat \<Rightarrow> hashTable \<Rightarrow> nat \<times> hashTable) \<Rightarrow> (nat \<Rightarrow> hashTable \<Rightarrow> hashTable) \<Rightarrow> nat \<Rightarrow> hashTable
     \<Rightarrow> hashTable option" where
  "check_loop chk fnx nToCheck h =
     (if nToCheck > 0 then
        (case chk nToCheck h of (n, h1) \<Rightarrow> check_loop chk fnx n (fnx n h1))
      else Some h)"

declare check_loop.simps [code]

text \<open>\<^verbatim>\<open>for i, colIdx := range eqCols { prober.ht.keys[i] = batch.ColVec(int(colIdx)) }\<close>\<close>

fun set_keys :: "Batch \<Rightarrow> nat list \<Rightarrow> nat \<Rightarrow> Vec list \<Rightarrow> panic + Vec list" where
  "set_keys b [] i keys = Inr keys"
| "set_keys b (colIdx # rest) i keys =
     (case ColVec b colIdx of
        Inl e \<Rightarrow> Inl e
      | Inr v \<Rightarrow> if i < length keys then set_keys b rest (Suc i) (keys[i := v])
                 else Inl IndexOutOfRange)"

text \<open>
  The loop of the \<^verbatim>\<open>LEFT ANTI\<close> case: every tuple whose bucket is not empty is put on
  \<^verbatim>\<open>toCheck\<close>, with the head of the bucket's chain as its \<^verbatim>\<open>groupID\<close>.
\<close>

fun anti_setup :: "nat list \<Rightarrow> hashTable \<Rightarrow> nat \<Rightarrow> panic + (hashTable \<times> nat)" where
  "anti_setup [] h nToCheck = Inr (h, nToCheck)"
| "anti_setup (i # is) h nToCheck =
     (if \<not> i < length (ht_buckets h) then Inl IndexOutOfRange
      else if \<not> ht_buckets h ! i < length (ht_first h) then Inl IndexOutOfRange
      else if ht_first h ! (ht_buckets h ! i) \<noteq> 0 then
        (if \<not> i < length (ht_groupID h) then Inl IndexOutOfRange
         else if \<not> nToCheck < length (ht_toCheck h) then Inl IndexOutOfRange
         else anti_setup is
                (h\<lparr>ht_groupID := (ht_groupID h)[i := ht_first h ! (ht_buckets h ! i)],
                   ht_toCheck := (ht_toCheck h)[nToCheck := i]\<rparr>)
                (Suc nToCheck))
      else anti_setup is h nToCheck)"

text \<open>\<^verbatim>\<open>copy(dst, src)\<close> copies \<open>min (len dst) (len src)\<close> elements.\<close>

definition go_copy :: "'a list \<Rightarrow> 'a list \<Rightarrow> 'a list" where
  "go_copy dst src = take (min (length dst) (length src)) src @ drop (length src) dst"

definition probe_setup ::
  "externs \<Rightarrow> hashTable \<Rightarrow> hashJoinProber \<Rightarrow> nat \<Rightarrow> nat list option \<Rightarrow> panic + (hashTable \<times> nat)" where
  "probe_setup ext h p batchSize sel =
     (case joinType (prober_spec p) of
        JoinType_LEFT_ANTI \<Rightarrow>
          (case anti_setup [0..<batchSize] (x_computeBuckets ext batchSize sel h) 0 of
             Inl e \<Rightarrow> Inl e
           | Inr (h1, nToCheck) \<Rightarrow>
               (case slice_to (ht_headID h1) (int batchSize) of
                  Inl e \<Rightarrow> Inl e
                | Inr dstHead \<Rightarrow>
                    Inr (h1\<lparr>ht_headID := go_copy dstHead (x_zeroUint64Column ext)
                                @ drop batchSize (ht_headID h1)\<rparr>, nToCheck)))
      | _ \<Rightarrow> Inr (x_lookupInitial ext batchSize sel h, batchSize))"

text \<open>The body of the \<^verbatim>\<open>for\<close> loop of \<^verbatim>\<open>exec\<close> for a batch that is not empty.\<close>

definition exec_batch ::
  "externs \<Rightarrow> hashTable \<Rightarrow> hashJoinProber \<Rightarrow> Batch \<Rightarrow> (panic + (hashTable \<times> hashJoinProber)) option" where
  "exec_batch ext h p b =
     (let batchSize = Length b; sel = Selection b in
      case set_keys b (eqCols (left (prober_spec p))) 0 (ht_keys h) of
        Inl e \<Rightarrow> Some (Inl e)
      | Inr keys \<Rightarrow>
          (case probe_setup ext (h\<lparr>ht_keys := keys\<rparr>) p batchSize sel of
             Inl e \<Rightarrow> Some (Inl e)
           | Inr (h2, nToCheck) \<Rightarrow>
               (case (if rightDistinct (prober_spec p)
                      then check_loop (\<lambda>n. x_distinctCheck ext n sel) (x_findNext ext) nToCheck h2
                      else check_loop (\<lambda>n. x_check ext n sel) (x_findNext ext) nToCheck h2) of
                  None \<Rightarrow> None
                | Some h3 \<Rightarrow>
                    (case (if rightDistinct (prober_spec p)
                           then x_distinctCollect ext h3 p b batchSize sel
                           else x_collect ext h3 (p\<lparr>prevBatchResumeIdx := 0\<rparr>) b batchSize sel) of
                       (nResults, h4, p1) \<Rightarrow>
                         (case congregate ext h4 p1 nResults b batchSize of
                            Inl e \<Rightarrow> Some (Inl e)
                          | Inr p2 \<Rightarrow> Some (Inr (h4, p2)))))))"

text \<open>
  The \<^verbatim>\<open>for\<close> loop of \<^verbatim>\<open>exec\<close>: it ends when the left input returns a batch of length 0
  or when a batch has produced output.
\<close>

fun exec_fresh ::
  "externs \<Rightarrow> hashTable \<Rightarrow> hashJoinProber \<Rightarrow> source
     \<Rightarrow> (panic + (hashTable \<times> hashJoinProber \<times> source)) option" where
  "exec_fresh ext h p [] = Some (Inr (h, p, []))"
| "exec_fresh ext h p (b # bs) =
     (if Length b = 0 then Some (Inr (h, p, bs))
      else
        (case exec_batch ext h p b of
           None \<Rightarrow> None
         | Some (Inl e) \<Rightarrow> Some (Inl e)
         | Some (Inr (h1, p1)) \<Rightarrow>
             if Length (batch p1) > 0 then Some (Inr (h1, p1, bs))
             else exec_fresh ext h1 p1 bs))"

definition exec ::
  "externs \<Rightarrow> hashTable \<Rightarrow> hashJoinProber \<Rightarrow> source
     \<Rightarrow> (panic + (hashTable \<times> hashJoinProber \<times> source)) option" where
  "exec ext h p src =
     (let p0 = p\<lparr>batch := SetLength 0 (batch p)\<rparr> in
      case prevBatch p0 of
        Some b \<Rightarrow>
          (case x_collect ext h (p0\<lparr>prevBatch := None\<rparr>) b (Length b) (Selection b) of
             (nResults, h1, p1) \<Rightarrow>
               (case congregate ext h1 p1 nResults b (Length b) of
                  Inl e \<Rightarrow> Some (Inl e)
                | Inr p2 \<Rightarrow> Some (Inr (h1, p2, src))))
      | None \<Rightarrow> exec_fresh ext h p0 src)"

subsection \<open>Next\<close>

text \<open>
  The \<^verbatim>\<open>for { switch hj.runningState ... }\<close> loop of \<^verbatim>\<open>Next\<close>. The result is the batch
  returned and the operator's new state, a panic, or \<open>None\<close> when \<^verbatim>\<open>exec\<close> does not
  return.
\<close>

definition state_rank :: "hashJoinerState \<Rightarrow> nat" where
  "state_rank st = (if st = hjBuilding then 2 else if st = hjProbing then 1 else 0)"

function Next_loop ::
  "externs \<Rightarrow> hashJoinEqOp \<Rightarrow> (failure + (Batch \<times> hashJoinEqOp)) option" where
  "Next_loop ext hj =
     (if runningState hj = hjBuilding then
        (case build ext hj of
           Inl e \<Rightarrow> Some (Inl e)
         | Inr hj1 \<Rightarrow> Next_loop ext hj1)
      else if runningState hj = hjProbing then
        (case (ht hj, prober hj) of
           (Some h, Some p) \<Rightarrow>
             (case exec ext h p (inputOne hj) of
                None \<Rightarrow> None
              | Some (Inl e) \<Rightarrow> Some (Inl (Panic e))
              | Some (Inr (h1, p1, src)) \<Rightarrow>
                  let hj1 = hj\<lparr>inputOne := src, ht := Some h1, prober := Some p1\<rparr> in
                  if Length (batch p1) = 0 \<and> outer (right (spec hj1)) then
                    Next_loop ext (hj1\<lparr>runningState := hjEmittingUnmatched\<rparr>)
                  else Some (Inr (batch p1, hj1)))
         | _ \<Rightarrow> Some (Inl (Nil NilPointerDereference)))
      else if runningState hj = hjEmittingUnmatched then
        (case emitUnmatched ext hj of
           Inl e \<Rightarrow> Some (Inl e)
         | Inr hj1 \<Rightarrow>
             (case prober hj1 of
                Some p1 \<Rightarrow> Some (Inr (batch p1, hj1))
              | None \<Rightarrow> Some (Inl (Nil NilPointerDereference))))
      else Some (Inl (Panic UnhandledState)))"
  by pat_completeness auto
termination
  by (relation "measure (\<lambda>(ext, hj). state_rank (runningState hj))")
     (auto simp: state_rank_def build_def hjBuilding_def hjProbing_def hjEmittingUnmatched_def
        Let_def split: option.splits prod.splits if_splits)

declare Next_loop.simps [simp del]

definition Next :: "externs \<Rightarrow> hashJoinEqOp \<Rightarrow> (failure + (Batch \<times> hashJoinEqOp)) option" where
  "Next ext hj =
     (case prober hj of
        None \<Rightarrow> Some (Inl (Nil NilPointerDereference))
      | Some p \<Rightarrow>
          Next_loop ext (hj\<lparr>prober := Some (p\<lparr>batch := x_ResetInternalBatch ext (batch p)\<rparr>)\<rparr>))"

subsection \<open>A concrete set of collaborators\<close>

text \<open>
  Modelled from the spec: \<^verbatim>\<open>Vec.Copy\<close>, the "gather-or-slice copy from source into
  destination using a selection vector": position \<open>i < SrcEndIdx\<close> of the destination
  gets the value and the null bit of the source at the selected index.
\<close>

definition gather_Copy :: "CopySliceArgs \<Rightarrow> Vec \<Rightarrow> Vec" where
  "gather_Copy args dst =
     (let idx = (case Sel64 args of Some ix \<Rightarrow> ix
                 | None \<Rightarrow> (case Sel args of Some ix \<Rightarrow> ix | None \<Rightarrow> [0..<SrcEndIdx args]));
          n = min (SrcEndIdx args) (min (length idx) (length (vec_data dst)));
          ok = filter (\<lambda>i. idx ! i < length (vec_data (Src args))) [0..<n]
      in \<lparr>vec_data = foldl (\<lambda>d i. d[i := vec_data (Src args) ! (idx ! i)]) (vec_data dst) ok,
          vec_nulls = (vec_nulls dst - set ok)
             \<union> set (filter (\<lambda>i. idx ! i \<in> vec_nulls (Src args)) ok)\<rparr>)"

text \<open>
  Modelled from the spec: what \<^verbatim>\<open>collect\<close> does with a batch none of whose rows has a
  match. For a left outer join each probe row from \<^verbatim>\<open>prevBatchResumeIdx\<close> on is emitted
  once, marked unmatched and with build index 0, up to the output batch size; if rows
  remain, the batch is kept in \<^verbatim>\<open>prevBatch\<close> with the row to resume from. Otherwise
  nothing is emitted.
\<close>

definition collect_unmatched ::
  "hashTable \<Rightarrow> hashJoinProber \<Rightarrow> Batch \<Rightarrow> nat \<Rightarrow> nat list option \<Rightarrow> nat \<times> hashTable \<times> hashJoinProber" where
  "collect_unmatched h p b batchSize sel =
     (if outer (left (prober_spec p)) then
        let start = prevBatchResumeIdx p;
            n = min (batchSize - start) (prober_outputBatchSize p);
            p1 = p\<lparr>probeRowUnmatched :=
                      replicate n True @ replicate (length (probeRowUnmatched p) - n) False,
                   buildIdx := replicate n 0 @ drop n (buildIdx p),
                   probeIdx := [start..<start + n] @ drop n (probeIdx p)\<rparr>
        in (n, h, if start + n < batchSize
                  then p1\<lparr>prevBatch := Some b, prevBatchResumeIdx := start + n\<rparr> else p1)
      else (0, h, p))"

text \<open>
  Modelled from the spec: one step of the build, "append all rows into \<^verbatim>\<open>vals\<close>".
\<close>

definition append_batch :: "hashTable \<Rightarrow> Batch \<Rightarrow> hashTable" where
  "append_batch h b =
     h\<lparr>ht_vals_length := ht_vals_length h + Length b,
       ht_vals_colVecs :=
         map2 (\<lambda>v c. v\<lparr>vec_data := vec_data v @ take (Length b) (vec_data c)\<rparr>)
           (ht_vals_colVecs h) (batch_cols b)\<rparr>"

text \<open>
  A set of collaborators for running the model on examples: the build appends the rows of the
  right input to the table, no probe row has a match, and both collectors are
  \<open>collect_unmatched\<close> (the distinct one starts from row 0).
\<close>

definition demo_externs :: externs where
  "demo_externs =
     \<lparr>x_newHashTable = (\<lambda>tys eq out.
         \<lparr>ht_vals_length = 0,
          ht_vals_colVecs = map (\<lambda>t. \<lparr>vec_data = [], vec_nulls = {}\<rparr>) tys,
          ht_valTypes = tys, ht_outCols = out,
          ht_keys = map (\<lambda>c. \<lparr>vec_data = [], vec_nulls = {}\<rparr>) eq,
          ht_buckets = [], ht_first = [], ht_groupID = [], ht_toCheck = [], ht_headID = [],
          ht_same = [], ht_visited = []\<rparr>),
      x_ht_build = (\<lambda>h src. (foldl append_batch h src, [])),
      x_computeBuckets = (\<lambda>n sel h. h),
      x_lookupInitial = (\<lambda>n sel h. h),
      x_distinctCheck = (\<lambda>n sel h. (0, h)),
      x_check = (\<lambda>n sel h. (0, h)),
      x_findNext = (\<lambda>n h. h),
      x_distinctCollect = (\<lambda>h p. collect_unmatched h (p\<lparr>prevBatchResumeIdx := 0\<rparr>)),
      x_collect = collect_unmatched,
      x_Copy = gather_Copy,
      x_ResetInternalBatch = (\<lambda>b. b\<lparr>batch_sel := None\<rparr>),
      x_zeroUint64Column = replicate 1024 0\<rparr>"

text \<open>A batch from its columns; an operator constructed and initialised with these collaborators
  (batch size 4, two columns on each side, equality on column 0); what \<^verbatim>\<open>build\<close> leaves.\<close>

definition demo_batch :: "nat \<Rightarrow> int list list \<Rightarrow> Batch" where
  "demo_batch n cols =
     \<lparr>batch_length = n, batch_cols = map (\<lambda>d. \<lparr>vec_data = d, vec_nulls = {}\<rparr>) cols,
      batch_sel = None\<rparr>"

definition demo_op :: "JoinType \<Rightarrow> bool \<Rightarrow> source \<Rightarrow> source \<Rightarrow> hashJoinEqOp option" where
  "demo_op jt rd lsrc rsrc =
     (case NewEqHashJoinerOp 4 lsrc rsrc [0] [0] [7, 8] [7, 9] rd jt of
        Inl e \<Rightarrow> None
      | Inr op \<Rightarrow> (case Init demo_externs 4 op of Inl e \<Rightarrow> None | Inr op' \<Rightarrow> Some op'))"

definition after_build ::
  "externs \<Rightarrow> hashJoinEqOp \<Rightarrow> (nat \<times> nat list \<times> bool list \<times> bool list \<times> hashJoinerState) option" where
  "after_build ext hj =
     (case build ext hj of
        Inl e \<Rightarrow> None
      | Inr hj' \<Rightarrow>
          (case (ht hj', prober hj') of
             (Some h, Some p) \<Rightarrow>
               Some (ht_vals_length h, ht_same h, ht_visited h, buildRowMatched p, runningState hj')
           | _ \<Rightarrow> None))"

definition demo_built :: "JoinType \<Rightarrow> bool \<Rightarrow> source \<Rightarrow> source \<Rightarrow> hashJoinEqOp option" where
  "demo_built jt rd lsrc rsrc =
     Option.bind (demo_op jt rd lsrc rsrc)
       (\<lambda>hj. case build demo_externs hj of Inl e \<Rightarrow> None | Inr hj' \<Rightarrow> Some hj')"

section \<open>Span-latch manager: newGuard\<close>

lemma countLatches_sum:
  "countLatches spans = int (\<Sum>(s, a)\<leftarrow>scopeAccessPairs. length (GetSpans spans a s))"
  by (simp add: countLatches_def scopeAccessPairs_def allScopes_def allAccesses_def)

lemma slice_to_replicate:
  "0 \<le> n \<Longrightarrow> n \<le> int m \<Longrightarrow> slice_to (replicate m z) n = Inr (replicate (nat n) z)"
  by (simp add: slice_to_def min_def nat_le_iff)

lemma slice_from_replicate:
  "0 \<le> n \<Longrightarrow> n \<le> int m \<Longrightarrow> slice_from (replicate m z) n = Inr (replicate (m - nat n) z)"
  by (simp add: slice_from_def)

lemma alloc_eq:
  "0 \<le> n \<Longrightarrow> allocGuardAndLatches p n = Inr (newGuardAt p, replicate (nat n) zeroLatch)"
  unfolding allocGuardAndLatches_def
  by (simp add: slice_to_replicate del: replicate.simps)

lemma body_eq:
  "length (GetSpans spans a s) \<le> m \<Longrightarrow>
   newGuard_body spans ts (s, a) (g, replicate m zeroLatch) =
     Inr (if GetSpans spans a s = [] then g
          else g\<lparr>guard_latches := (guard_latches g)(s := (guard_latches g s)(a :=
                 map (initLatch ts s g zeroLatch) (GetSpans spans a s)))\<rparr>,
          replicate (m - length (GetSpans spans a s)) zeroLatch)"
  unfolding newGuard_body_def
  by (simp add: Let_def slice_to_replicate slice_from_replicate setLatches_def
       zip_replicate1 map_zip_map2 comp_def)

lemma initLatch_guard_latches [simp]:
  "initLatch ts s (g\<lparr>guard_latches := f\<rparr>) = initLatch ts s g"
  by (simp add: initLatch_def fun_eq_iff)

lemma newGuard_loop_gen:
  "distinct sas \<Longrightarrow> (\<Sum>(s, a)\<leftarrow>sas. length (GetSpans spans a s)) \<le> m \<Longrightarrow>
   newGuard_loop spans ts sas (g, replicate m zeroLatch) =
     Inr (filled spans ts g sas,
          replicate (m - (\<Sum>(s, a)\<leftarrow>sas. length (GetSpans spans a s))) zeroLatch)"
proof (induction sas arbitrary: g m)
  case Nil
  then show ?case by (simp add: filled_def)
next
  case (Cons sa sas)
  obtain s a where sa: "sa = (s, a)" by (cases sa)
  let ?n = "length (GetSpans spans a s)"
  let ?g = "if GetSpans spans a s = [] then g
          else g\<lparr>guard_latches := (guard_latches g)(s := (guard_latches g s)(a :=
                 map (initLatch ts s g zeroLatch) (GetSpans spans a s)))\<rparr>"
  from Cons.prems have le: "?n \<le> m"
    and le': "(\<Sum>(s, a)\<leftarrow>sas. length (GetSpans spans a s)) \<le> m - ?n"
    and d: "distinct sas" and notin: "(s, a) \<notin> set sas"
    by (auto simp: sa)
  have step: "newGuard_body spans ts (s, a) (g, replicate m zeroLatch) =
      Inr (?g, replicate (m - ?n) zeroLatch)"
    using body_eq [OF le] by simp
  have fill: "filled spans ts ?g sas = filled spans ts g (sa # sas)"
    using notin by (auto simp: filled_def sa fun_eq_iff)
  show ?case
    using Cons.IH [OF d le', of ?g] step fill
    by (simp add: sa)
qed

lemma scopeAccessPairs_mem: "(s, a) \<in> set scopeAccessPairs"
  by (cases s; cases a) (simp_all add: scopeAccessPairs_def allScopes_def allAccesses_def)

lemma scopeAccessPairs_distinct: "distinct scopeAccessPairs"
  by (simp add: scopeAccessPairs_def allScopes_def allAccesses_def)

lemma filled_all:
  "filled spans ts (newGuardAt p) scopeAccessPairs =
     \<lparr>guard_done = p,
      guard_latches = (\<lambda>s a. map (\<lambda>sp. \<lparr>latch_id = 0, latch_span = sp,
          latch_ts = ifGlobal ts s, latch_done = p\<rparr>) (GetSpans spans a s))\<rparr>"
  by (auto simp: filled_def newGuardAt_def scopeAccessPairs_mem fun_eq_iff initLatch_def
      zeroLatch_def)

lemma newGuard_eq:
  "newGuard p spans ts = Inr (filled spans ts (newGuardAt p) scopeAccessPairs)"
proof -
  let ?n = "\<Sum>(s, a)\<leftarrow>scopeAccessPairs. length (GetSpans spans a s)"
  have alloc: "allocGuardAndLatches p (countLatches spans) =
      Inr (newGuardAt p, replicate ?n zeroLatch)"
    using alloc_eq [of "countLatches spans" p] by (simp add: countLatches_sum)
  have loop: "newGuard_loop spans ts scopeAccessPairs (newGuardAt p, replicate ?n zeroLatch) =
      Inr (filled spans ts (newGuardAt p) scopeAccessPairs, [])"
    using newGuard_loop_gen [OF scopeAccessPairs_distinct order_refl, of spans ts "newGuardAt p"]
    by simp
  show ?thesis
    by (simp add: newGuard_def alloc loop)
qed

text \<open>
  C10. For every span set, \<^verbatim>\<open>newGuard\<close> allocates exactly one latch per declared span,
  summed over all scopes and accesses; the loop hands every one of them to the guard and
  leaves the allocated slice empty, so the \<^verbatim>\<open>"alloc too large"\<close> panic (and every other
  panic of the function) is not reached; the guard's latches carry the declared spans, the
  scope-adjusted timestamp and the address of the guard's own \<^verbatim>\<open>done\<close> signal.
\<close>

theorem newGuard_allocates_exactly:
  "\<exists>g ls. allocGuardAndLatches p (countLatches spans) = Inr (newGuardAt p, ls)
     \<and> length ls = (\<Sum>(s, a)\<leftarrow>scopeAccessPairs. length (GetSpans spans a s))
     \<and> newGuard_loop spans ts scopeAccessPairs (newGuardAt p, ls) = Inr (g, [])
     \<and> newGuard p spans ts = Inr g
     \<and> newGuard p spans ts \<noteq> Inl AllocTooLarge
     \<and> guard_done g = p
     \<and> (\<forall>s a. latches g s a =
           map (\<lambda>sp. \<lparr>latch_id = 0, latch_span = sp, latch_ts = ifGlobal ts s,
                       latch_done = p\<rparr>) (GetSpans spans a s))"
proof -
  let ?n = "\<Sum>(s, a)\<leftarrow>scopeAccessPairs. length (GetSpans spans a s)"
  let ?ls = "replicate ?n zeroLatch"
  let ?g = "filled spans ts (newGuardAt p) scopeAccessPairs"
  have alloc: "allocGuardAndLatches p (countLatches spans) = Inr (newGuardAt p, ?ls)"
    using alloc_eq [of "countLatches spans" p] by (simp add: countLatches_sum)
  have loop: "newGuard_loop spans ts scopeAccessPairs (newGuardAt p, ?ls) = Inr (?g, [])"
    using newGuard_loop_gen [OF scopeAccessPairs_distinct order_refl, of spans ts "newGuardAt p"]
    by simp
  have ng: "newGuard p spans ts = Inr ?g"
    by (rule newGuard_eq)
  show ?thesis
    apply (rule exI [of _ ?g], rule exI [of _ ?ls])
    apply (simp only: alloc loop ng)
    apply (simp add: filled_all latches_def)
    done
qed

section \<open>Span-latch manager: waiting\<close>





lemma fired_observe: "observe w ticks = (w1, ticks1) \<Longrightarrow> fired w \<subseteq> fired w1"
  by (cases ticks) (auto simp: apply_tick_def)

lemma fired_select_loop:
  "select_loop w ticks r = Some (c, w2, ticks2) \<Longrightarrow> fired w \<subseteq> fired w2"
proof (induction ticks arbitrary: w)
  case Nil
  then show ?case by (auto split: option.splits)
next
  case (Cons t ticks)
  show ?case
  proof (cases "select_ready w r")
    case None
    with Cons.prems have "select_loop (apply_tick t w) ticks r = Some (c, w2, ticks2)" by simp
    from Cons.IH [OF this] show ?thesis by (auto simp: apply_tick_def)
  next
    case (Some c')
    with Cons.prems show ?thesis by auto
  qed
qed

lemma fired_select_wait:
  "select_wait w ticks r = Some (c, w2, ticks2) \<Longrightarrow> fired w \<subseteq> fired w2"
  unfolding select_wait_def
  by (auto split: prod.splits dest!: fired_observe fired_select_loop)

lemma iterAndWait_loop_signaled:
  "iterAndWait_loop w ticks ls ts ig = (r, w', ticks', log) \<Longrightarrow> (h, act) \<in> set log \<Longrightarrow>
   signaled w (latch_done h) \<Longrightarrow> act = SkipSignaled"
proof (induction ls arbitrary: w ticks r w' ticks' log)
  case Nil
  then show ?case by simp
next
  case (Cons la rest)
  obtain w1 ticks1 where ob: "observe w ticks = (w1, ticks1)" by (cases "observe w ticks")
  from fired_observe [OF ob] Cons.prems(3) have s1: "signaled w1 (latch_done h)"
    by (auto simp: signaled_def)
  show ?case
  proof (cases "signaled w1 (latch_done la)")
    case True
    with Cons.prems ob Cons.IH [OF _ _ s1] show ?thesis
      by (auto split: prod.splits)
  next
    case ns: False
    show ?thesis
    proof (cases "ig ts (latch_ts la)")
      case True
      with ns Cons.prems ob Cons.IH [OF _ _ s1] s1 show ?thesis
        by (auto split: prod.splits)
    next
      case False
      show ?thesis
      proof (cases "select_wait w1 ticks1 (latch_done la)")
        case None
        with False ns Cons.prems ob s1 show ?thesis by auto
      next
        case (Some res)
        obtain c w2 ticks2 where res: "res = (c, w2, ticks2)" by (cases res)
        from fired_select_wait [OF Some [unfolded res]] s1 have s2: "signaled w2 (latch_done h)"
          by (auto simp: signaled_def)
        from False ns Cons.prems ob s1 Some res Cons.IH [OF _ _ s2] show ?thesis
          by (cases c) (auto split: prod.splits)
      qed
    qed
  qed
qed

lemma iterAndWait_loop_all_signaled:
  "\<forall>la\<in>set ls. signaled w (latch_done la) \<Longrightarrow>
   \<exists>w' ticks'. iterAndWait_loop w ticks ls ts ig = (Returned None, w', ticks', map (\<lambda>la. (la, SkipSignaled)) ls)"
proof (induction ls arbitrary: w ticks)
  case Nil
  then show ?case by simp
next
  case (Cons la rest)
  obtain w1 ticks1 where ob: "observe w ticks = (w1, ticks1)" by (cases "observe w ticks")
  from fired_observe [OF ob] Cons.prems have s1: "\<forall>la\<in>set (la # rest). signaled w1 (latch_done la)"
    by (auto simp: signaled_def)
  then have "\<forall>la\<in>set rest. signaled w1 (latch_done la)" by simp
  from Cons.IH [OF this, of ticks1] obtain w' ticks' where
    "iterAndWait_loop w1 ticks1 rest ts ig = (Returned None, w', ticks', map (\<lambda>la. (la, SkipSignaled)) rest)"
    by blast
  with s1 ob show ?case by simp
qed

lemma iterAndWait_loop_log_subset:
  "iterAndWait_loop w ticks ls ts ig = (r, w', ticks', log) \<Longrightarrow> fst ` set log \<subseteq> set ls"
proof (induction ls arbitrary: w ticks r w' ticks' log)
  case Nil
  then show ?case by simp
next
  case (Cons la rest)
  obtain w1 ticks1 where ob: "observe w ticks = (w1, ticks1)" by (cases "observe w ticks")
  show ?case
    using Cons.prems Cons.IH ob
    by (fastforce split: if_splits prod.splits option.splits selected.splits)
qed

text \<open>
  C9. A waiter never blocks on a latch whose \<^verbatim>\<open>done\<close> signal has already fired: every
  latch \<^verbatim>\<open>iterAndWait\<close> visits is one the iterator found overlapping in the snapshot, and a
  visited latch whose signal had fired when the call started is skipped without a
  \<^verbatim>\<open>select\<close>. If all overlapping latches of the snapshot are released already, the call
  returns \<^verbatim>\<open>nil\<close> having selected on nothing, whatever the schedule and the context.
\<close>

theorem iterAndWait_never_blocks_on_signaled:
  assumes "iterAndWait w ticks it search ts ig = (r, w', ticks', log)"
  shows "(\<forall>h act. (h, act) \<in> set log \<and> signaled w (latch_done h) \<longrightarrow> act = SkipSignaled)
    \<and> fst ` set log \<subseteq> set (btree_overlapping it search)
    \<and> ((\<forall>h\<in>set (btree_overlapping it search). signaled w (latch_done h)) \<longrightarrow>
         r = Returned None \<and> log = map (\<lambda>h. (h, SkipSignaled)) (btree_overlapping it search))"
proof (intro conjI allI impI)
  fix h act
  assume "(h, act) \<in> set log \<and> signaled w (latch_done h)"
  with assms show "act = SkipSignaled"
    unfolding iterAndWait_def by (blast dest: iterAndWait_loop_signaled)
next
  show "fst ` set log \<subseteq> set (btree_overlapping it search)"
    using assms unfolding iterAndWait_def by (rule iterAndWait_loop_log_subset)
next
  assume all: "\<forall>h\<in>set (btree_overlapping it search). signaled w (latch_done h)"
  from iterAndWait_loop_all_signaled [OF all, of ticks ts ig] assms
  show "r = Returned None" "log = map (\<lambda>h. (h, SkipSignaled)) (btree_overlapping it search)"
    unfolding iterAndWait_def by auto
qed



theorem iterAndWait_never_blocks_on_signaled_witness:
  "iterAndWait \<lparr>fired = {7, 8}, ctx_err = Some Canceled, pick_ctx = True\<rparr> []
      [\<lparr>latch_id = 1, latch_span = \<lparr>Key = 1, EndKey = 5\<rparr>,
        latch_ts = \<lparr>WallTime = 10, Logical = 0\<rparr>, latch_done = 7\<rparr>,
       \<lparr>latch_id = 2, latch_span = \<lparr>Key = 2, EndKey = 6\<rparr>,
        latch_ts = \<lparr>WallTime = 3, Logical = 0\<rparr>, latch_done = 8\<rparr>,
       \<lparr>latch_id = 3, latch_span = \<lparr>Key = 20, EndKey = 26\<rparr>,
        latch_ts = \<lparr>WallTime = 3, Logical = 0\<rparr>, latch_done = 9\<rparr>]
      \<lparr>latch_id = 0, latch_span = \<lparr>Key = 3, EndKey = 4\<rparr>,
        latch_ts = \<lparr>WallTime = 5, Logical = 0\<rparr>, latch_done = 11\<rparr>
      \<lparr>WallTime = 5, Logical = 0\<rparr> ignoreNothing
    = (Returned None, \<lparr>fired = {7, 8}, ctx_err = Some Canceled, pick_ctx = True\<rparr>, [],
       [(\<lparr>latch_id = 1, latch_span = \<lparr>Key = 1, EndKey = 5\<rparr>,
          latch_ts = \<lparr>WallTime = 10, Logical = 0\<rparr>, latch_done = 7\<rparr>, SkipSignaled),
        (\<lparr>latch_id = 2, latch_span = \<lparr>Key = 2, EndKey = 6\<rparr>,
        latch_ts = \<lparr>WallTime = 3, Logical = 0\<rparr>, latch_done = 8\<rparr>, SkipSignaled)])
   \<and> signaled \<lparr>fired = {7, 8}, ctx_err = Some Canceled, pick_ctx = True\<rparr> 7
   \<and> signaled \<lparr>fired = {7, 8}, ctx_err = Some Canceled, pick_ctx = True\<rparr> 8"
proof -
  let ?w = "\<lparr>fired = {7, 8}, ctx_err = Some Canceled, pick_ctx = True\<rparr>"
  let ?h1 = "\<lparr>latch_id = 1, latch_span = \<lparr>Key = 1, EndKey = 5\<rparr>,
        latch_ts = \<lparr>WallTime = 10, Logical = 0\<rparr>, latch_done = 7\<rparr>"
  let ?h2 = "\<lparr>latch_id = 2, latch_span = \<lparr>Key = 2, EndKey = 6\<rparr>,
        latch_ts = \<lparr>WallTime = 3, Logical = 0\<rparr>, latch_done = 8\<rparr>"
  let ?h3 = "\<lparr>latch_id = 3, latch_span = \<lparr>Key = 20, EndKey = 26\<rparr>,
        latch_ts = \<lparr>WallTime = 3, Logical = 0\<rparr>, latch_done = 9\<rparr>"
  let ?s = "\<lparr>latch_id = 0, latch_span = \<lparr>Key = 3, EndKey = 4\<rparr>,
        latch_ts = \<lparr>WallTime = 5, Logical = 0\<rparr>, latch_done = 11\<rparr>"
  let ?t = "\<lparr>WallTime = 5, Logical = 0\<rparr>"
  have run: "iterAndWait ?w [] [?h1, ?h2, ?h3] ?s ?t ignoreNothing
      = (Returned None, ?w, [], [(?h1, SkipSignaled), (?h2, SkipSignaled)])"
    by (simp add: iterAndWait_def btree_overlapping_def overlaps_def signaled_def)
  from iterAndWait_never_blocks_on_signaled [OF run] run
  show ?thesis by (simp add: signaled_def)
qed

section \<open>Span-latch manager: the critical section of sequence\<close>


lemma btree_Set_mem: "x \<in> set (btree_Set la t) \<longleftrightarrow> x = la \<or> x \<in> set t"
  by (auto simp: btree_Set_def)

lemma btree_SetAll_Nil [simp]: "btree_SetAll t [] = t"
  by (simp add: btree_SetAll_def)

lemma btree_SetAll_Cons [simp]: "btree_SetAll t (la # ls) = btree_SetAll (btree_Set la t) ls"
  by (simp add: btree_SetAll_def)

lemma btree_SetAll_append: "btree_SetAll t (xs @ ys) = btree_SetAll (btree_SetAll t xs) ys"
  by (simp add: btree_SetAll_def)

lemma set_btree_SetAll: "set (btree_SetAll t ls) = set t \<union> set ls"
  by (induction ls arbitrary: t) (auto simp: btree_Set_mem)

lemma btree_SetAll_removeAll:
  "la \<in> set t \<Longrightarrow> btree_SetAll t (removeAll la xs) = btree_SetAll t xs"
proof (induction xs arbitrary: t)
  case Nil
  then show ?case by simp
next
  case (Cons x xs)
  show ?case
  proof (cases "x = la")
    case True
    with Cons show ?thesis by (simp add: btree_Set_def)
  next
    case False
    with Cons show ?thesis by (simp add: btree_Set_mem)
  qed
qed

lemma flushReadSetLocked_eq:
  "flushReadSetLocked sm =
     sm\<lparr>readSet := [], trees := (trees sm)(SpanReadOnly := btree_SetAll (trees sm SpanReadOnly) (readSet sm))\<rparr>"
proof (induction sm rule: flushReadSetLocked.induct)
  case (1 sm)
  show ?case
  proof (cases "readSet sm")
    case Nil
    then show ?thesis by (subst flushReadSetLocked.simps) simp
  next
    case (Cons la rest)
    let ?sm = "sm\<lparr>readSet := latchList_remove la (readSet sm),
                trees := (trees sm)(SpanReadOnly := btree_Set la (trees sm SpanReadOnly))\<rparr>"
    have mem: "la \<in> set (btree_Set la (trees sm SpanReadOnly))" by (simp add: btree_Set_mem)
    have "flushReadSetLocked sm = flushReadSetLocked ?sm"
      by (subst flushReadSetLocked.simps) (simp add: Cons)
    also have "\<dots> = ?sm\<lparr>readSet := [], trees := (trees ?sm)(SpanReadOnly :=
        btree_SetAll (trees ?sm SpanReadOnly) (readSet ?sm))\<rparr>"
      by (rule "1.IH" [OF Cons])
    also have "\<dots> = sm\<lparr>readSet := [], trees := (trees sm)(SpanReadOnly :=
        btree_SetAll (trees sm SpanReadOnly) (readSet sm))\<rparr>"
      using btree_SetAll_removeAll [OF mem, of rest]
      by (simp add: Cons latchList_remove_def)
    finally show ?thesis .
  qed
qed


lemma snapshot_scope_eq:
  "snap s = (\<lambda>a. btree_empty) \<Longrightarrow>
   snapshot_scope spans s (m, snap) =
     (m\<lparr>scopes := (scopes m)(s := scope_flushed spans s (scopes m s))\<rparr>,
      snap(s := scope_snapshot spans s (scopes m s)))"
  unfolding snapshot_scope_def scope_flushed_def scope_snapshot_def
  by (auto simp: Let_def flushReadSetLocked_eq btree_Clone_def fun_eq_iff split: SpanAccess.splits)

lemma snapshot_fold:
  "distinct ss \<Longrightarrow> \<forall>s\<in>set ss. snap s = (\<lambda>a. btree_empty) \<Longrightarrow>
   foldl (\<lambda>st s. snapshot_scope spans s st) (m, snap) ss =
     (m\<lparr>scopes := (\<lambda>s. if s \<in> set ss then scope_flushed spans s (scopes m s) else scopes m s)\<rparr>,
      (\<lambda>s. if s \<in> set ss then scope_snapshot spans s (scopes m s) else snap s))"
proof (induction ss arbitrary: m snap)
  case Nil
  then show ?case by simp
next
  case (Cons s ss)
  let ?m = "m\<lparr>scopes := (scopes m)(s := scope_flushed spans s (scopes m s))\<rparr>"
  let ?snap = "snap(s := scope_snapshot spans s (scopes m s))"
  from Cons.prems have step: "snapshot_scope spans s (m, snap) = (?m, ?snap)"
    by (simp add: snapshot_scope_eq)
  from Cons.prems have d: "distinct ss" and e: "\<forall>x\<in>set ss. ?snap x = (\<lambda>a. btree_empty)"
    by auto
  from Cons.prems have notin: "s \<notin> set ss" by simp
  have r1: "?m\<lparr>scopes := (\<lambda>x. if x \<in> set ss then scope_flushed spans x (scopes ?m x) else scopes ?m x)\<rparr>
      = m\<lparr>scopes := (\<lambda>x. if x \<in> set (s # ss) then scope_flushed spans x (scopes m x) else scopes m x)\<rparr>"
    using notin by (auto simp: fun_eq_iff)
  have r2: "(\<lambda>x. if x \<in> set ss then scope_snapshot spans x (scopes ?m x) else ?snap x)
      = (\<lambda>x. if x \<in> set (s # ss) then scope_snapshot spans x (scopes m x) else snap x)"
    using notin by (auto simp: fun_eq_iff)
  have "foldl (\<lambda>st s. snapshot_scope spans s st) (m, snap) (s # ss)
      = foldl (\<lambda>st s. snapshot_scope spans s st) (?m, ?snap) ss"
    by (simp only: foldl.simps step)
  also note Cons.IH [OF d e, of ?m]
  finally show ?case by (simp only: r1 r2)
qed

lemma snapshotLocked_eq:
  "snapshotLocked m spans =
     (m\<lparr>scopes := (\<lambda>s. scope_flushed spans s (scopes m s))\<rparr>,
      (\<lambda>s. scope_snapshot spans s (scopes m s)))"
proof -
  have mem: "s \<in> set allScopes" for s by (cases s) (simp_all add: allScopes_def)
  have d: "distinct allScopes" by (simp add: allScopes_def)
  show ?thesis
    unfolding snapshotLocked_def
    using snapshot_fold [OF d, of zeroSnapshot spans m]
    by (simp add: zeroSnapshot_def mem)
qed


lemma length_number_latches [simp]: "length (number_latches b ls) = length ls"
  by (induction ls arbitrary: b) auto

lemma insert_latches_RO:
  "insert_latches s SpanReadOnly m ls =
     (m\<lparr>idAlloc := idAlloc m + of_nat (length ls),
        scopes := (scopes m)(s := scope_inserted SpanReadOnly (scopes m s) (number_latches (idAlloc m) ls))\<rparr>,
      number_latches (idAlloc m) ls)"
  by (induction ls arbitrary: m)
     (simp_all add: insert_latch_def nextID_def scope_inserted_def pushBack_def
          Let_def add.assoc add.commute)

lemma insert_latches_RW:
  "insert_latches s SpanReadWrite m ls =
     (m\<lparr>idAlloc := idAlloc m + of_nat (length ls),
        scopes := (scopes m)(s := scope_inserted SpanReadWrite (scopes m s) (number_latches (idAlloc m) ls))\<rparr>,
      number_latches (idAlloc m) ls)"
  by (induction ls arbitrary: m)
     (simp_all add: insert_latch_def nextID_def scope_inserted_def
          Let_def add.assoc add.commute)

lemma insert_latches_eq:
  "insert_latches s a m ls =
     (m\<lparr>idAlloc := idAlloc m + of_nat (length ls),
        scopes := (scopes m)(s := scope_inserted a (scopes m s) (number_latches (idAlloc m) ls))\<rparr>,
      number_latches (idAlloc m) ls)"
  by (cases a) (simp_all only: insert_latches_RO insert_latches_RW)

lemma insert_pair_eq:
  "insert_pair (m, lg) (s, a) =
     (m\<lparr>idAlloc := idAlloc m + of_nat (length (latches lg s a)),
        scopes := (scopes m)(s := scope_inserted a (scopes m s)
           (number_latches (idAlloc m) (latches lg s a)))\<rparr>,
      lg\<lparr>guard_latches := (guard_latches lg)(s := (guard_latches lg s)(a :=
           number_latches (idAlloc m) (latches lg s a)))\<rparr>)"
  by (simp add: insert_pair_def insert_latches_eq)


lemma insertLocked_props:
  assumes "insertLocked m lg = (m', lg')"
  shows "idAlloc m' = idAlloc m + of_nat (length (guard_all_latches lg))"
    and "mu m' = mu m" and "guard_done lg' = guard_done lg"
    and "readSet (scopes m' s) = readSet (scopes m s) @ latches lg' s SpanReadOnly"
    and "trees (scopes m' s) SpanReadOnly = trees (scopes m s) SpanReadOnly"
    and "trees (scopes m' s) SpanReadWrite =
           btree_SetAll (trees (scopes m s) SpanReadWrite) (latches lg' s SpanReadWrite)"
    and "latches lg' s a = number_latches (idAlloc m + of_nat (latches_before lg (s, a))) (latches lg s a)"
proof -
  note defs = insertLocked_def scopeAccessPairs_def allScopes_def allAccesses_def
    insert_pair_eq latches_def scope_inserted_def guard_all_latches_def latches_before_def
  from assms show "idAlloc m' = idAlloc m + of_nat (length (guard_all_latches lg))"
    by (auto simp: defs add.assoc)
  from assms show "mu m' = mu m" by (auto simp: defs)
  from assms show "guard_done lg' = guard_done lg" by (auto simp: defs)
  from assms show "readSet (scopes m' s) = readSet (scopes m s) @ latches lg' s SpanReadOnly"
    by (cases s) (auto simp: defs)
  from assms show "trees (scopes m' s) SpanReadOnly = trees (scopes m s) SpanReadOnly"
    by (cases s) (auto simp: defs)
  from assms show "trees (scopes m' s) SpanReadWrite =
           btree_SetAll (trees (scopes m s) SpanReadWrite) (latches lg' s SpanReadWrite)"
    by (cases s) (auto simp: defs)
  from assms show "latches lg' s a = number_latches (idAlloc m + of_nat (latches_before lg (s, a))) (latches lg s a)"
    by (cases s; cases a) (auto simp: defs add.assoc)
qed


lemma latches_filled:
  "latches (filled spans ts (newGuardAt p) scopeAccessPairs) s a =
     map (\<lambda>sp. \<lparr>latch_id = 0, latch_span = sp, latch_ts = ifGlobal ts s, latch_done = p\<rparr>)
       (GetSpans spans a s)"
  by (simp add: filled_all latches_def)

lemma latches_before_filled:
  "latches_before (filled spans ts (newGuardAt p) scopeAccessPairs) sa = spans_before spans sa"
  by (simp add: latches_before_def spans_before_def latches_filled cong: map_cong)

lemma guard_all_latches_filled_length:
  "length (guard_all_latches (filled spans ts (newGuardAt p) scopeAccessPairs)) = spans_total spans"
  by (simp add: guard_all_latches_def spans_total_def latches_filled length_concat comp_def
      case_prod_unfold)

lemma sequence_eq:
  "\<exists>lg snap m'. sequence m p spans ts = Inr (lg, snap, m')
     \<and> insertLocked (fst (snapshotLocked (mu_Lock m) spans))
          (filled spans ts (newGuardAt p) scopeAccessPairs) = (m'\<lparr>mu := True\<rparr>, lg)
     \<and> snap = snd (snapshotLocked (mu_Lock m) spans)
     \<and> mu m' = False"
proof -
  obtain m1 snap where sl: "snapshotLocked (mu_Lock m) spans = (m1, snap)"
    by (cases "snapshotLocked (mu_Lock m) spans")
  obtain m2 lg where il: "insertLocked m1 (filled spans ts (newGuardAt p) scopeAccessPairs) = (m2, lg)"
    by (cases "insertLocked m1 (filled spans ts (newGuardAt p) scopeAccessPairs)")
  have "mu m1 = True" using sl by (auto simp: snapshotLocked_eq mu_Lock_def)
  with insertLocked_props(2) [OF il] have "mu m2 = True" by simp
  then have "(mu_Unlock m2)\<lparr>mu := True\<rparr> = m2" by (simp add: mu_Unlock_def)
  then show ?thesis
    by (simp add: sequence_def newGuard_eq sl il) (simp add: mu_Unlock_def)
qed


lemma number_latches_ids:
  "map latch_id (number_latches b ls) = map (\<lambda>k. b + of_nat k) [1..<Suc (length ls)]"
proof (induction ls arbitrary: b)
  case Nil
  then show ?case by simp
next
  case (Cons la ls)
  have "[1..<Suc (Suc (length ls))] = 1 # map Suc [1..<Suc (length ls)]"
    by (simp add: upt_conv_Cons map_Suc_upt del: upt_Suc)
  then show ?case
    by (simp add: Cons.IH comp_def add.assoc del: upt_Suc)
qed

lemma unat_add_of_nat:
  assumes "unat (b :: 64 word) + k < 2 ^ 64"
  shows "unat (b + of_nat k) = unat b + k"
proof -
  from assms have k: "k < 2 ^ 64" by (rule le_less_trans [OF le_add2])
  have len: "LENGTH(64) = 64" by simp
  from k have uk: "unat (of_nat k :: 64 word) = k"
    by (simp only: unat_of_nat len mod_less)
  with assms have "unat b + unat (of_nat k :: 64 word) < 2 ^ LENGTH(64)"
    by (simp only: len)
  then have "unat (b + of_nat k) = unat b + unat (of_nat k :: 64 word)"
    by (simp only: unat_add_lem)
  with uk show ?thesis by simp
qed

lemma below_bound: "(a::nat) + n < N \<Longrightarrow> x \<le> n \<Longrightarrow> a + x < N"
  by simp

lemma numbered_ids_distinct:
  assumes "unat (b :: 64 word) + n < 2 ^ 64"
  shows "distinct (map (\<lambda>k. b + of_nat k) [1..<Suc n])"
proof -
  have "inj_on (\<lambda>k. b + (of_nat k :: 64 word)) (set [1..<Suc n])"
  proof (rule inj_onI)
    fix x y assume x: "x \<in> set [1..<Suc n]" and y: "y \<in> set [1..<Suc n]"
      and eq: "b + (of_nat x :: 64 word) = b + of_nat y"
    from x have "x \<le> n" by auto
    from unat_add_of_nat [OF below_bound [OF assms this]]
    have ux: "unat (b + of_nat x) = unat b + x" .
    from y have "y \<le> n" by auto
    from unat_add_of_nat [OF below_bound [OF assms this]]
    have uy: "unat (b + of_nat y) = unat b + y" .
    from eq have "unat (b + of_nat x) = unat (b + of_nat y)" by (rule arg_cong)
    then show "x = y" by (simp only: ux uy add_left_cancel)
  qed
  then show ?thesis by (simp add: distinct_map del: upt_Suc)
qed

lemma numbered_ids_range:
  assumes "unat (b :: 64 word) + n < 2 ^ 64" and "i \<in> set (map (\<lambda>k. b + of_nat k) [1..<Suc n])"
  shows "b < i \<and> i \<le> b + of_nat n"
proof -
  from assms(2) obtain k where k: "1 \<le> k" "k \<le> n" and i: "i = b + of_nat k" by auto
  from unat_add_of_nat [OF below_bound [OF assms(1) k(2)]]
  have "unat i = unat b + k" unfolding i .
  moreover from assms(1) have "unat (b + of_nat n) = unat b + n" by (rule unat_add_of_nat)
  ultimately show ?thesis using k by (simp add: word_less_nat_alt word_le_nat_alt)
qed


lemma upt_split_map:
  "map g [Suc 0..<Suc (n + m)] = map g [Suc 0..<Suc n] @ map (\<lambda>k. g (n + k)) [Suc 0..<Suc m]"
proof -
  have "[Suc 0..<Suc (n + m)] = [Suc 0..<Suc n] @ [Suc n..<Suc n + m]"
    by (metis add_Suc upt_add_eq_append Suc_le_mono le0)
  moreover have "[Suc n..<Suc n + m] = map (\<lambda>k. n + k) [Suc 0..<Suc m]"
    by (induction m) (auto simp del: upt_Suc simp: upt_Suc_append)
  ultimately show ?thesis
    by (simp add: comp_def del: upt_Suc)
qed

lemma guard_ids_after_insert:
  assumes "insertLocked m lg = (m', lg')"
  shows "map latch_id (guard_all_latches lg') =
     map (\<lambda>k. idAlloc m + of_nat k) [1..<Suc (length (guard_all_latches lg))]"
proof -
  have l: "latches lg' s a = number_latches (idAlloc m + of_nat (latches_before lg (s, a))) (latches lg s a)" for s a
    by (rule insertLocked_props(7) [OF assms])
  show ?thesis
    apply (simp add: guard_all_latches_def scopeAccessPairs_def allScopes_def allAccesses_def l
       number_latches_ids latches_before_def del: upt_Suc)
    apply (simp only: upt_split_map of_nat_add add.assoc)
    done
qed


lemma set_manager_latches:
  "set (manager_latches m) =
     (\<Union>s. set (readSet (scopes m s)) \<union> set (trees (scopes m s) SpanReadOnly)
          \<union> set (trees (scopes m s) SpanReadWrite))"
proof -
  have u: "(UNIV :: SpanScope set) = {SpanGlobal, SpanLocal}"
    using SpanScope.exhaust by auto
  show ?thesis
    by (subst u) (auto simp: manager_latches_def allScopes_def allAccesses_def)
qed

lemma set_guard_all_latches:
  "set (guard_all_latches lg) = (\<Union>s. set (latches lg s SpanReadOnly) \<union> set (latches lg s SpanReadWrite))"
proof -
  have u: "(UNIV :: SpanScope set) = {SpanGlobal, SpanLocal}"
    using SpanScope.exhaust by auto
  show ?thesis
    by (subst u) (auto simp: guard_all_latches_def scopeAccessPairs_def allScopes_def allAccesses_def)
qed

lemma sequence_props:
  assumes "sequence m p spans ts = Inr (lg, snap, m')"
  shows "mu m' = False" and "guard_done lg = p"
    and "snap s SpanReadOnly = (if GetSpans spans SpanReadWrite s \<noteq> []
           then btree_SetAll (trees (scopes m s) SpanReadOnly) (readSet (scopes m s))
           else btree_empty)"
    and "snap s SpanReadWrite =
          (if GetSpans spans SpanReadWrite s \<noteq> [] \<or> GetSpans spans SpanReadOnly s \<noteq> []
           then trees (scopes m s) SpanReadWrite else btree_empty)"
    and "readSet (scopes m' s) =
          (if GetSpans spans SpanReadWrite s \<noteq> [] then [] else readSet (scopes m s))
            @ latches lg s SpanReadOnly"
    and "trees (scopes m' s) SpanReadOnly =
          (if GetSpans spans SpanReadWrite s \<noteq> []
           then btree_SetAll (trees (scopes m s) SpanReadOnly) (readSet (scopes m s))
           else trees (scopes m s) SpanReadOnly)"
    and "trees (scopes m' s) SpanReadWrite =
           btree_SetAll (trees (scopes m s) SpanReadWrite) (latches lg s SpanReadWrite)"
    and "latches lg s a =
           number_latches (idAlloc m + of_nat (spans_before spans (s, a)))
             (map (\<lambda>sp. \<lparr>latch_id = 0, latch_span = sp, latch_ts = ifGlobal ts s,
                         latch_done = p\<rparr>) (GetSpans spans a s))"
    and "map latch_id (guard_all_latches lg) =
           map (\<lambda>k. idAlloc m + of_nat k) [1..<Suc (spans_total spans)]"
    and "idAlloc m' = idAlloc m + of_nat (spans_total spans)"
proof -
  let ?g = "filled spans ts (newGuardAt p) scopeAccessPairs"
  let ?m1 = "fst (snapshotLocked (mu_Lock m) spans)"
  from sequence_eq [of m p spans ts] assms
  have il: "insertLocked ?m1 ?g = (m'\<lparr>mu := True\<rparr>, lg)"
    and sn: "snap = snd (snapshotLocked (mu_Lock m) spans)" and mu: "mu m' = False"
    by auto
  have m1: "scopes ?m1 = (\<lambda>s. scope_flushed spans s (scopes m s))" "idAlloc ?m1 = idAlloc m"
    by (simp_all add: snapshotLocked_eq mu_Lock_def)
  note ip = insertLocked_props [OF il]
  show "mu m' = False" by (rule mu)
  show "guard_done lg = p" using ip(3) by (simp add: filled_all)
  show "snap s SpanReadOnly = (if GetSpans spans SpanReadWrite s \<noteq> []
           then btree_SetAll (trees (scopes m s) SpanReadOnly) (readSet (scopes m s))
           else btree_empty)"
    by (simp add: sn snapshotLocked_eq scope_snapshot_def mu_Lock_def)
  show "snap s SpanReadWrite =
          (if GetSpans spans SpanReadWrite s \<noteq> [] \<or> GetSpans spans SpanReadOnly s \<noteq> []
           then trees (scopes m s) SpanReadWrite else btree_empty)"
    by (simp add: sn snapshotLocked_eq scope_snapshot_def mu_Lock_def)
  show "readSet (scopes m' s) =
          (if GetSpans spans SpanReadWrite s \<noteq> [] then [] else readSet (scopes m s))
            @ latches lg s SpanReadOnly"
    using ip(4) [of s] by (simp add: m1 scope_flushed_def)
  show "trees (scopes m' s) SpanReadOnly =
          (if GetSpans spans SpanReadWrite s \<noteq> []
           then btree_SetAll (trees (scopes m s) SpanReadOnly) (readSet (scopes m s))
           else trees (scopes m s) SpanReadOnly)"
    using ip(5) [of s] by (simp add: m1 scope_flushed_def)
  show "trees (scopes m' s) SpanReadWrite =
           btree_SetAll (trees (scopes m s) SpanReadWrite) (latches lg s SpanReadWrite)"
    using ip(6) [of s] by (simp add: m1 scope_flushed_def)
  show "latches lg s a =
           number_latches (idAlloc m + of_nat (spans_before spans (s, a)))
             (map (\<lambda>sp. \<lparr>latch_id = 0, latch_span = sp, latch_ts = ifGlobal ts s,
                         latch_done = p\<rparr>) (GetSpans spans a s))"
    using ip(7) [of s a] by (simp add: m1 latches_filled latches_before_filled)
  show "map latch_id (guard_all_latches lg) =
           map (\<lambda>k. idAlloc m + of_nat k) [1..<Suc (spans_total spans)]"
    using guard_ids_after_insert [OF il]
    by (simp add: m1 guard_all_latches_filled_length del: upt_Suc)
  show "idAlloc m' = idAlloc m + of_nat (spans_total spans)"
    using ip(1) by (simp add: m1 guard_all_latches_filled_length)
qed


lemma sequence_manager_latches:
  assumes "sequence m p spans ts = Inr (lg, snap, m')"
  shows "set (manager_latches m') = set (manager_latches m) \<union> set (guard_all_latches lg)"
  unfolding set_manager_latches set_guard_all_latches
  by (auto simp: sequence_props(5,6,7) [OF assms] set_btree_SetAll split: if_splits)

lemma sequence_fresh:
  assumes seq: "sequence m p spans ts = Inr (lg, snap, m')"
    and nowrap: "unat (idAlloc m) + spans_total spans < 2 ^ 64"
  shows "distinct (map latch_id (guard_all_latches lg))"
    and "list_all (\<lambda>la. idAlloc m < latch_id la \<and> latch_id la \<le> idAlloc m') (guard_all_latches lg)"
    and "ids_bounded m \<Longrightarrow> ids_bounded m'"
    and "ids_bounded m \<Longrightarrow> list_all (\<lambda>la. la \<notin> set (manager_latches m)) (guard_all_latches lg)"
proof -
  note ids = sequence_props(9) [OF seq]
  note alloc = sequence_props(10) [OF seq]
  show "distinct (map latch_id (guard_all_latches lg))"
    unfolding ids by (rule numbered_ids_distinct [OF nowrap])
  have rng: "idAlloc m < latch_id la \<and> latch_id la \<le> idAlloc m'" if "la \<in> set (guard_all_latches lg)" for la
  proof -
    from that have "latch_id la \<in> set (map latch_id (guard_all_latches lg))" by simp
    then have "latch_id la \<in> set (map (\<lambda>k. idAlloc m + of_nat k) [1..<Suc (spans_total spans)])"
      by (simp only: ids)
    from numbered_ids_range [OF nowrap this] show ?thesis by (simp only: alloc)
  qed
  then show "list_all (\<lambda>la. idAlloc m < latch_id la \<and> latch_id la \<le> idAlloc m') (guard_all_latches lg)"
    by (simp add: list_all_iff)
  have le: "idAlloc m \<le> idAlloc m'"
    unfolding alloc word_le_nat_alt unat_add_of_nat [OF nowrap] by simp
  show "ids_bounded m'" if "ids_bounded m"
    using that rng le
    unfolding ids_bounded_def list_all_iff sequence_manager_latches [OF seq]
    by (auto intro: order_trans)
  show "list_all (\<lambda>la. la \<notin> set (manager_latches m)) (guard_all_latches lg)" if "ids_bounded m"
    using that rng
    unfolding ids_bounded_def list_all_iff
    by (auto simp: not_le [symmetric])
qed


text \<open>
  C3. The critical section of \<^verbatim>\<open>sequence\<close>. It always completes and leaves the mutex
  released. In each scope where the caller declares write spans the read set is flushed
  into the read-only tree and the snapshot gets that tree; the snapshot gets the
  read-write tree of each scope where the caller declares read or write spans; elsewhere
  it stays empty. Then each latch of the caller gets the next ID (the counter is advanced
  by one per latch, in the order global reads, global writes, local reads, local writes),
  reads are appended to the read set of their scope and writes are set into its
  read-write tree. The snapshot is a function of the state found, taken before the
  insertions. While the counter does not wrap around, the new IDs are distinct and above
  every ID handed out before, so that no latch of the caller is in the snapshot.
\<close>

theorem sequence_critical_section:
  "\<exists>lg snap m'. sequence m p spans ts = Inr (lg, snap, m')
     \<and> mu m' = False \<and> guard_done lg = p
     \<and> (\<forall>s. snap s SpanReadOnly = (if GetSpans spans SpanReadWrite s \<noteq> []
           then btree_SetAll (trees (scopes m s) SpanReadOnly) (readSet (scopes m s))
           else btree_empty))
     \<and> (\<forall>s. snap s SpanReadWrite =
          (if GetSpans spans SpanReadWrite s \<noteq> [] \<or> GetSpans spans SpanReadOnly s \<noteq> []
           then trees (scopes m s) SpanReadWrite else btree_empty))
     \<and> (\<forall>s. readSet (scopes m' s) =
          (if GetSpans spans SpanReadWrite s \<noteq> [] then [] else readSet (scopes m s))
            @ latches lg s SpanReadOnly)
     \<and> (\<forall>s. trees (scopes m' s) SpanReadOnly =
          (if GetSpans spans SpanReadWrite s \<noteq> []
           then btree_SetAll (trees (scopes m s) SpanReadOnly) (readSet (scopes m s))
           else trees (scopes m s) SpanReadOnly))
     \<and> (\<forall>s. trees (scopes m' s) SpanReadWrite =
           btree_SetAll (trees (scopes m s) SpanReadWrite) (latches lg s SpanReadWrite))
     \<and> (\<forall>s a. latches lg s a =
           number_latches (idAlloc m + of_nat (spans_before spans (s, a)))
             (map (\<lambda>sp. \<lparr>latch_id = 0, latch_span = sp, latch_ts = ifGlobal ts s,
                         latch_done = p\<rparr>) (GetSpans spans a s)))
     \<and> map latch_id (guard_all_latches lg) =
           map (\<lambda>k. idAlloc m + of_nat k) [1..<Suc (spans_total spans)]
     \<and> idAlloc m' = idAlloc m + of_nat (spans_total spans)
     \<and> (unat (idAlloc m) + spans_total spans < 2 ^ 64 \<longrightarrow>
          distinct (map latch_id (guard_all_latches lg))
          \<and> list_all (\<lambda>la. idAlloc m < latch_id la \<and> latch_id la \<le> idAlloc m')
               (guard_all_latches lg)
          \<and> (ids_bounded m \<longrightarrow> ids_bounded m'
               \<and> list_all (\<lambda>la. la \<notin> set (manager_latches m)) (guard_all_latches lg)))"
proof -
  from sequence_eq [of m p spans ts] obtain lg snap m'
    where seq: "sequence m p spans ts = Inr (lg, snap, m')" by blast
  note p = sequence_props [OF seq]
  note f = sequence_fresh [OF seq]
  show ?thesis
    apply (rule exI [of _ lg], rule exI [of _ snap], rule exI [of _ m'])
    apply (intro conjI allI impI)
    apply (rule seq p f | assumption)+
    done
qed


theorem sequence_critical_section_witness:
  "\<exists>lg snap m'.
     sequence
       \<lparr>mu = False, idAlloc = 1,
        scopes = (\<lambda>s. case s of
           SpanGlobal \<Rightarrow> \<lparr>readSet = [\<lparr>latch_id = 1, latch_span = \<lparr>Key = 1, EndKey = 5\<rparr>,
               latch_ts = \<lparr>WallTime = 3, Logical = 0\<rparr>, latch_done = 7\<rparr>],
             trees = (\<lambda>a. [])\<rparr>
         | SpanLocal \<Rightarrow> zeroScopedManager)\<rparr>
       9 (\<lambda>a s. if a = SpanReadWrite \<and> s = SpanGlobal then [\<lparr>Key = 2, EndKey = 4\<rparr>] else [])
       \<lparr>WallTime = 10, Logical = 0\<rparr> = Inr (lg, snap, m')
     \<and> snap SpanGlobal SpanReadOnly = [\<lparr>latch_id = 1, latch_span = \<lparr>Key = 1, EndKey = 5\<rparr>,
               latch_ts = \<lparr>WallTime = 3, Logical = 0\<rparr>, latch_done = 7\<rparr>]
     \<and> snap SpanGlobal SpanReadWrite = []
     \<and> snap SpanLocal SpanReadWrite = []
     \<and> readSet (scopes m' SpanGlobal) = []
     \<and> trees (scopes m' SpanGlobal) SpanReadOnly = [\<lparr>latch_id = 1, latch_span = \<lparr>Key = 1, EndKey = 5\<rparr>,
               latch_ts = \<lparr>WallTime = 3, Logical = 0\<rparr>, latch_done = 7\<rparr>]
     \<and> trees (scopes m' SpanGlobal) SpanReadWrite = [\<lparr>latch_id = 2, latch_span = \<lparr>Key = 2, EndKey = 4\<rparr>,
               latch_ts = \<lparr>WallTime = 10, Logical = 0\<rparr>, latch_done = 9\<rparr>]
     \<and> latches lg SpanGlobal SpanReadWrite = [\<lparr>latch_id = 2, latch_span = \<lparr>Key = 2, EndKey = 4\<rparr>,
               latch_ts = \<lparr>WallTime = 10, Logical = 0\<rparr>, latch_done = 9\<rparr>]
     \<and> idAlloc m' = 2 \<and> mu m' = False \<and> ids_bounded m'"
proof -
  let ?r = "\<lparr>latch_id = 1, latch_span = \<lparr>Key = 1, EndKey = 5\<rparr>,
               latch_ts = \<lparr>WallTime = 3, Logical = 0\<rparr>, latch_done = 7\<rparr>"
  let ?m = "\<lparr>mu = False, idAlloc = 1,
        scopes = (\<lambda>s. case s of
           SpanGlobal \<Rightarrow> \<lparr>readSet = [?r], trees = (\<lambda>a. [])\<rparr>
         | SpanLocal \<Rightarrow> zeroScopedManager)\<rparr>"
  let ?sp = "(\<lambda>a s. if a = SpanReadWrite \<and> s = SpanGlobal then [\<lparr>Key = 2, EndKey = 4\<rparr>] else [])"
  have tot: "spans_total ?sp = 1"
    by (simp add: spans_total_def scopeAccessPairs_def allScopes_def allAccesses_def GetSpans_def)
  have bef: "spans_before ?sp (SpanGlobal, SpanReadWrite) = 0"
    by (simp add: spans_before_def scopeAccessPairs_def allScopes_def allAccesses_def GetSpans_def)
  have nowrap: "unat (idAlloc ?m) + spans_total ?sp < 2 ^ 64"
    by (simp add: tot)
  have bounded: "ids_bounded ?m"
    by (simp add: ids_bounded_def manager_latches_def allScopes_def allAccesses_def
        zeroScopedManager_def btree_empty_def)
  from sequence_critical_section [of ?m 9 ?sp "\<lparr>WallTime = 10, Logical = 0\<rparr>"]
  show ?thesis
    apply (elim exE conjE)
    subgoal for lg snap m'
      apply (rule exI [of _ lg], rule exI [of _ snap], rule exI [of _ m'])
      using nowrap bounded
      apply (simp add: tot bef GetSpans_def btree_empty_def btree_Set_def)
      done
    done
qed

section \<open>Span-latch manager: Release and a cancelled Acquire\<close>


lemma placed_once_iff:
  "placed_once m \<longleftrightarrow>
     (\<forall>s a la. la \<in> set (readSet (scopes m s)) \<longrightarrow> la \<notin> set (trees (scopes m s) a))"
proof -
  have s: "(\<forall>s\<in>set allScopes. P s) \<longleftrightarrow> (\<forall>s. P s)" for P
    by (auto simp: allScopes_def) (metis SpanScope.exhaust)
  have a: "(\<forall>a\<in>set allAccesses. P a) \<longleftrightarrow> (\<forall>a. P a)" for P
    by (auto simp: allAccesses_def) (metis SpanAccess.exhaust)
  show ?thesis
    unfolding placed_once_def list_all_iff s a by auto
qed

lemma remove_latch_absent:
  "placed_once m \<Longrightarrow> absent (remove_latch s a m la) s a la"
  by (auto simp: placed_once_iff absent_def remove_latch_def Let_def inReadSet_def
      latchList_remove_def btree_Delete_def)

lemma remove_latch_mono:
  "absent m s' a' x \<Longrightarrow> absent (remove_latch s a m la) s' a' x"
  by (auto simp: absent_def remove_latch_def Let_def inReadSet_def
      latchList_remove_def btree_Delete_def)

lemma remove_latch_placed:
  "placed_once m \<Longrightarrow> placed_once (remove_latch s a m la)"
  by (auto simp: placed_once_iff remove_latch_def Let_def inReadSet_def
      latchList_remove_def btree_Delete_def)

lemma remove_latch_mu [simp]: "mu (remove_latch s a m la) = mu m"
  by (simp add: remove_latch_def Let_def)

lemma remove_latches_placed:
  "placed_once m \<Longrightarrow> placed_once (foldl (remove_latch s a) m ls)"
  by (induction ls arbitrary: m) (auto intro: remove_latch_placed)

lemma remove_latches_mono:
  "absent m s' a' x \<Longrightarrow> absent (foldl (remove_latch s a) m ls) s' a' x"
  by (induction ls arbitrary: m) (auto intro: remove_latch_mono)

lemma remove_latches_mu: "mu (foldl (remove_latch s a) m ls) = mu m"
  by (induction ls arbitrary: m) auto

lemma remove_latches_absent:
  "placed_once m \<Longrightarrow> la \<in> set ls \<Longrightarrow> absent (foldl (remove_latch s a) m ls) s a la"
proof (induction ls arbitrary: m)
  case Nil
  then show ?case by simp
next
  case (Cons x xs)
  show ?case
  proof (cases "la = x")
    case True
    from remove_latch_absent [OF Cons.prems(1)] have "absent (remove_latch s a m x) s a x" .
    then show ?thesis unfolding True by (simp add: remove_latches_mono)
  next
    case False
    with Cons.prems have "la \<in> set xs" by simp
    from Cons.IH [OF remove_latch_placed [OF Cons.prems(1)] this] show ?thesis by simp
  qed
qed

lemmas remove_latches_props =
  remove_latches_placed remove_latches_mono remove_latches_absent remove_latches_mu

lemma removeLocked_gen:
  "placed_once m \<Longrightarrow>
   placed_once (foldl (\<lambda>m (s, a). foldl (remove_latch s a) m (latches lg s a)) m sas)
   \<and> mu (foldl (\<lambda>m (s, a). foldl (remove_latch s a) m (latches lg s a)) m sas) = mu m
   \<and> (\<forall>s a la. (s, a) \<in> set sas \<and> la \<in> set (latches lg s a) \<longrightarrow>
         absent (foldl (\<lambda>m (s, a). foldl (remove_latch s a) m (latches lg s a)) m sas) s a la)
   \<and> (\<forall>s a la. absent m s a la \<longrightarrow>
         absent (foldl (\<lambda>m (s, a). foldl (remove_latch s a) m (latches lg s a)) m sas) s a la)"
proof (induction sas arbitrary: m)
  case Nil
  then show ?case by simp
next
  case (Cons sa sas)
  obtain s a where sa: "sa = (s, a)" by (cases sa)
  let ?m = "foldl (remove_latch s a) m (latches lg s a)"
  have pl: "placed_once ?m" by (rule remove_latches_props(1) [OF Cons.prems])
  note ih = Cons.IH [OF pl]
  show ?case
    unfolding sa
    apply (simp only: foldl.simps prod.case)
    apply (intro conjI allI impI)
       apply (rule ih [THEN conjunct1])
      apply (simp add: ih [THEN conjunct2, THEN conjunct1] remove_latches_props(4))
     subgoal for s' a' la
       using ih remove_latches_props(3) [OF Cons.prems, of la "latches lg s a" s a]
       by auto
    subgoal for s' a' la
      using ih remove_latches_props(2) [of m s' a' la s a "latches lg s a"]
      by auto
    done
qed

lemma removeLocked_props:
  assumes "placed_once m"
  shows "placed_once (removeLocked m lg)" and "mu (removeLocked m lg) = mu m"
    and "la \<in> set (latches lg s a) \<Longrightarrow> absent (removeLocked m lg) s a la"
  using removeLocked_gen [OF assms, of lg scopeAccessPairs]
  unfolding removeLocked_def
  by (auto simp: scopeAccessPairs_mem)


lemma select_loop_ctx:
  "select_loop w ticks r = Some (CtxDone, w2, ticks2) \<Longrightarrow> ctx_err w2 \<noteq> None"
proof (induction ticks arbitrary: w)
  case Nil
  then show ?case by (auto simp: select_ready_def split: option.splits if_splits)
next
  case (Cons t ticks)
  then show ?case by (auto simp: select_ready_def split: option.splits if_splits)
qed

lemma select_wait_ctx:
  "select_wait w ticks r = Some (CtxDone, w2, ticks2) \<Longrightarrow> ctx_err w2 \<noteq> None"
  unfolding select_wait_def by (auto split: prod.splits dest: select_loop_ctx)

lemma iterAndWait_loop_error:
  "iterAndWait_loop w ticks ls ts ig = (Returned (Some e), w', ticks', log) \<Longrightarrow>
   ctx_err w' = Some e \<and> log \<noteq> [] \<and> snd (last log) = Selected"
proof (induction ls arbitrary: w ticks log)
  case Nil
  then show ?case by simp
next
  case (Cons la rest)
  obtain w1 ticks1 where ob: "observe w ticks = (w1, ticks1)" by (cases "observe w ticks")
  show ?case
    using Cons.prems Cons.IH ob
    by (auto split: if_splits prod.splits option.splits selected.splits dest: select_wait_ctx)
qed

lemma wait_run_error:
  "wait_run w ticks calls ts = (Returned (Some e), w', ticks', log) \<Longrightarrow>
   ctx_err w' = Some e \<and> log \<noteq> [] \<and> snd (last log) = Selected"
proof (induction calls arbitrary: w ticks log)
  case Nil
  then show ?case by simp
next
  case (Cons c calls)
  obtain it la ig where c: "c = (it, la, ig)" by (cases c)
  obtain r w1 ticks1 log1 where i: "iterAndWait w ticks it la ts ig = (r, w1, ticks1, log1)"
    by (cases "iterAndWait w ticks it la ts ig")
  show ?case
  proof (cases "r = Returned None")
    case True
    obtain r2 w2 ticks2 log2 where r2: "wait_run w1 ticks1 calls ts = (r2, w2, ticks2, log2)"
      by (cases "wait_run w1 ticks1 calls ts")
    with Cons.prems c i True have "r2 = Returned (Some e)" "w2 = w'" "log = log1 @ log2" "ticks2 = ticks'"
      by auto
    with Cons.IH [of w1 ticks1 log2] r2 show ?thesis by auto
  next
    case False
    with Cons.prems c i have "r = Returned (Some e)" "w1 = w'" "log = log1" "ticks1 = ticks'"
      by (auto split: wait_result.splits option.splits)
    with i show ?thesis
      unfolding iterAndWait_def by (auto dest: iterAndWait_loop_error)
  qed
qed


lemma guard_latches_done:
  assumes "sequence m p spans ts = Inr (lg, snap, m1)"
  shows "list_all (\<lambda>la. latch_done la = guard_done lg) (guard_all_latches lg)"
proof -
  have n: "list_all (\<lambda>la. latch_done la = q) (number_latches b ls)"
    if "list_all (\<lambda>la. latch_done la = q) ls" for q b ls
    using that by (induction ls arbitrary: b) auto
  have "list_all (\<lambda>la. latch_done la = p) (latches lg s a)" for s a
    unfolding sequence_props(8) [OF assms] by (rule n) (simp add: list_all_iff)
  then show ?thesis
    by (simp add: sequence_props(2) [OF assms] guard_all_latches_def scopeAccessPairs_def
        allScopes_def allAccesses_def)
qed

text \<open>
  C4. If the context ends while \<^verbatim>\<open>Acquire\<close> is waiting (\<^verbatim>\<open>wait\<close> returns an error, which
  it does only out of a \<^verbatim>\<open>select\<close> on an overlapping latch, and the error is
  \<^verbatim>\<open>ctx.Err()\<close>), \<^verbatim>\<open>Acquire\<close> calls \<^verbatim>\<open>Release\<close> on its guard and returns a nil guard with
  that error. \<^verbatim>\<open>Release\<close> fires the guard's \<^verbatim>\<open>done\<close> signal, which is the signal of
  every latch of the guard, and removes the guard's latches: afterwards none of them is in
  the read set of its scope or in the tree of its scope and access, and the mutex is free.
\<close>

theorem Acquire_canceled_releases:
  assumes seq: "sequence m p spans ts = Inr (lg, snap, m1)"
    and wt: "wait w ticks lg ts snap = (Returned (Some err), w1, ticks1, log)"
    and pl: "placed_once (others m1)"
  shows "\<exists>w2 m2. Acquire w ticks others m p spans ts = Returns None (Some err) w2 m2
      \<and> Release w1 (others m1) lg = (w2, m2)
      \<and> ctx_err w1 = Some err \<and> log \<noteq> [] \<and> snd (last log) = Selected
      \<and> signaled w2 (guard_done lg) \<and> fired w2 = insert (guard_done lg) (fired w1)
      \<and> list_all (\<lambda>la. latch_done la = guard_done lg) (guard_all_latches lg)
      \<and> (\<forall>s a. list_all (\<lambda>la. la \<notin> set (readSet (scopes m2 s))
                        \<and> la \<notin> set (trees (scopes m2 s) a)) (latches lg s a))
      \<and> mu m2 = False \<and> placed_once m2"
proof -
  let ?w2 = "signal w1 (guard_done lg)"
  let ?m2 = "mu_Unlock (removeLocked (mu_Lock (others m1)) lg)"
  have pl': "placed_once (mu_Lock (others m1))"
    using pl by (simp add: placed_once_iff mu_Lock_def)
  note rl = removeLocked_props [OF pl']
  have acq: "Acquire w ticks others m p spans ts = Returns None (Some err) ?w2 ?m2"
    by (simp add: Acquire_def seq wt Release_def)
  have rel: "Release w1 (others m1) lg = (?w2, ?m2)"
    by (simp add: Release_def)
  have gone: "list_all (\<lambda>la. la \<notin> set (readSet (scopes ?m2 s))
       \<and> la \<notin> set (trees (scopes ?m2 s) a)) (latches lg s a)" for s a
    using rl(3) [where s = s and a = a] by (auto simp: list_all_iff absent_def mu_Unlock_def)
  have pl2: "placed_once ?m2"
    using rl(1) by (simp add: placed_once_iff mu_Unlock_def)
  from wait_run_error [OF wt [unfolded wait_def]]
  have err: "ctx_err w1 = Some err" "log \<noteq> []" "snd (last log) = Selected" by auto
  show ?thesis
  proof (intro exI [of _ ?w2] exI [of _ ?m2] conjI allI)
    show "signaled ?w2 (guard_done lg)" by (simp add: signaled_def signal_def)
    show "fired ?w2 = insert (guard_done lg) (fired w1)" by (simp add: signal_def)
    show "mu ?m2 = False" by (simp add: mu_Unlock_def)
  qed (fact acq rel err guard_latches_done [OF seq] gone pl2)+
qed


theorem Acquire_canceled_releases_witness:
  "\<exists>w2 m2.
     Acquire \<lparr>fired = {}, ctx_err = None, pick_ctx = False\<rparr>
       [\<lparr>tick_fired = [], tick_ctx = Some Canceled, tick_pick_ctx = False\<rparr>]
       (\<lambda>m. m)
       \<lparr>mu = False, idAlloc = 1,
        scopes = (\<lambda>s. case s of
           SpanGlobal \<Rightarrow> \<lparr>readSet = [],
             trees = (\<lambda>a. case a of SpanReadOnly \<Rightarrow> []
               | SpanReadWrite \<Rightarrow> [\<lparr>latch_id = 1, latch_span = \<lparr>Key = 1, EndKey = 5\<rparr>,
                   latch_ts = \<lparr>WallTime = 10, Logical = 0\<rparr>, latch_done = 7\<rparr>])\<rparr>
         | SpanLocal \<Rightarrow> zeroScopedManager)\<rparr>
       9 (\<lambda>a s. if a = SpanReadWrite \<and> s = SpanGlobal then [\<lparr>Key = 2, EndKey = 4\<rparr>] else [])
       \<lparr>WallTime = 10, Logical = 0\<rparr>
     = Returns None (Some Canceled) w2 m2
     \<and> signaled w2 9
     \<and> \<lparr>latch_id = 2, latch_span = \<lparr>Key = 2, EndKey = 4\<rparr>,
         latch_ts = \<lparr>WallTime = 10, Logical = 0\<rparr>, latch_done = 9\<rparr>
           \<notin> set (trees (scopes m2 SpanGlobal) SpanReadWrite)
     \<and> mu m2 = False"
proof -
  let ?w = "\<lparr>fired = {}, ctx_err = None, pick_ctx = False\<rparr>"
  let ?w1 = "\<lparr>fired = {}, ctx_err = Some Canceled, pick_ctx = False\<rparr>"
  let ?tk = "[\<lparr>tick_fired = [], tick_ctx = Some Canceled, tick_pick_ctx = False\<rparr>]"
  let ?h = "\<lparr>latch_id = 1, latch_span = \<lparr>Key = 1, EndKey = 5\<rparr>,
                   latch_ts = \<lparr>WallTime = 10, Logical = 0\<rparr>, latch_done = 7\<rparr>"
  let ?n = "\<lparr>latch_id = 2, latch_span = \<lparr>Key = 2, EndKey = 4\<rparr>,
         latch_ts = \<lparr>WallTime = 10, Logical = 0\<rparr>, latch_done = 9\<rparr>"
  let ?m = "\<lparr>mu = False, idAlloc = 1,
        scopes = (\<lambda>s. case s of
           SpanGlobal \<Rightarrow> \<lparr>readSet = [],
             trees = (\<lambda>a. case a of SpanReadOnly \<Rightarrow> [] | SpanReadWrite \<Rightarrow> [?h])\<rparr>
         | SpanLocal \<Rightarrow> zeroScopedManager)\<rparr>"
  let ?sp = "(\<lambda>a s. if a = SpanReadWrite \<and> s = SpanGlobal then [\<lparr>Key = 2, EndKey = 4\<rparr>] else [])"
  let ?t = "\<lparr>WallTime = 10, Logical = 0\<rparr>"
  from sequence_eq [of ?m 9 ?sp ?t] obtain lg snap m1
    where seq: "sequence ?m 9 ?sp ?t = Inr (lg, snap, m1)" by blast
  note sp = sequence_props [OF seq]
  have bef: "spans_before ?sp (s, a) = (if s = SpanLocal then 1 else 0)" for s a
    by (cases s; cases a)
       (simp_all add: spans_before_def scopeAccessPairs_def allScopes_def allAccesses_def GetSpans_def)
  have lat: "latches lg s a = (if a = SpanReadWrite \<and> s = SpanGlobal then [?n] else [])" for s a
    by (simp add: sp(8) bef GetSpans_def)
  have sn: "snap SpanGlobal SpanReadWrite = [?h]" "snap SpanGlobal SpanReadOnly = []"
    by (simp_all add: sp(3,4) GetSpans_def)
  have wt: "wait ?w ?tk lg ?t snap = (Returned (Some Canceled), ?w1, [], [(?h, Selected)])"
    by (simp add: wait_def wait_calls_def scopeAccessPairs_def allScopes_def allAccesses_def lat sn
        iterAndWait_def btree_overlapping_def overlaps_def apply_tick_def signaled_def
        ignoreNothing_def select_wait_def select_ready_def)
  have pl: "placed_once ((\<lambda>m. m) m1)"
    by (simp add: placed_once_iff sp(5) lat GetSpans_def zeroScopedManager_def split: SpanScope.splits)
  from Acquire_canceled_releases [where others = "\<lambda>m. m", OF seq wt pl]
  show ?thesis
    apply (elim exE conjE)
    subgoal for w2 m2
      apply (rule exI [of _ w2], rule exI [of _ m2])
      apply (simp add: sp(2) lat)
      apply (drule spec [of _ SpanGlobal], drule spec [of _ SpanReadWrite])
      apply simp
      done
    done
qed

section \<open>Hash joiner: the constructor\<close>


lemma index_all_drop:
  "k \<le> length xs \<Longrightarrow> index_all xs [k..<length xs] = Inr (drop k xs)"
proof (induction "length xs - k" arbitrary: k)
  case 0
  then show ?case by simp
next
  case (Suc d)
  then have lt: "k < length xs" by simp
  from Suc have "index_all xs [Suc k..<length xs] = Inr (drop (Suc k) xs)" by simp
  with lt show ?case
    by (simp add: upt_conv_Cons Cons_nth_drop_Suc)
qed

lemma index_all_upt: "index_all xs [0..<length xs] = Inr xs"
  using index_all_drop [of 0 xs] by simp

text \<open>
  C2 as stated fails for \<^verbatim>\<open>LEFT ANTI\<close>: the constructor empties the right output
  columns there but leaves \<^verbatim>\<open>rightDistinct\<close> as the caller passed it.
\<close>

theorem NewEqHashJoinerOp_antijoin_counterexample:
  "NewEqHashJoinerOp 1024 [] [] [0] [0] [7, 8] [7, 9] False JoinType_LEFT_ANTI =
     Inr \<lparr>inputOne = [], inputTwo = [],
          spec = \<lparr>joinType = JoinType_LEFT_ANTI,
            left = \<lparr>eqCols = [0], outCols = [0, 1], sourceTypes = [7, 8], outer = False\<rparr>,
            right = \<lparr>eqCols = [0], outCols = [], sourceTypes = [7, 9], outer = False\<rparr>,
            rightDistinct = False\<rparr>,
          ht = None, prober = None, runningState = 0,
          outputBatchSize = 1024, emittingUnmatchedState_rowIdx = 0\<rparr>"
  by (simp add: NewEqHashJoinerOp_def upt_rec)

text \<open>
  C2, amended. For every supported join type the constructor succeeds and the left output
  columns are all left source columns. For \<^verbatim>\<open>LEFT SEMI\<close> the right output column set is
  empty and \<^verbatim>\<open>rightDistinct\<close> is forced to true; for \<^verbatim>\<open>LEFT ANTI\<close> the right output
  column set is empty and \<^verbatim>\<open>rightDistinct\<close> is the caller's value; for the other supported
  join types the output columns are all source columns, left followed by right, and
  \<^verbatim>\<open>rightDistinct\<close> is the caller's value.
\<close>

theorem NewEqHashJoinerOp_outCols:
  assumes "jt \<noteq> JoinType_other"
  shows "\<exists>op. NewEqHashJoinerOp B ls rs le re lt rt rd jt = Inr op
     \<and> joinType (spec op) = jt \<and> outputBatchSize op = B
     \<and> outCols (left (spec op)) = [0..<length lt]
     \<and> outCols (right (spec op)) =
          (if jt = JoinType_LEFT_SEMI \<or> jt = JoinType_LEFT_ANTI then [] else [0..<length rt])
     \<and> rightDistinct (spec op) = (if jt = JoinType_LEFT_SEMI then True else rd)
     \<and> outColTypes (spec op) =
          Inr (lt @ (if jt = JoinType_LEFT_SEMI \<or> jt = JoinType_LEFT_ANTI then [] else rt))
     \<and> outer (left (spec op)) = (jt = JoinType_LEFT_OUTER \<or> jt = JoinType_FULL_OUTER)
     \<and> outer (right (spec op)) = (jt = JoinType_RIGHT_OUTER \<or> jt = JoinType_FULL_OUTER)"
  using assms
  by (cases jt) (simp_all add: NewEqHashJoinerOp_def outColTypes_def index_all_upt)

theorem NewEqHashJoinerOp_outCols_witness:
  "JoinType_LEFT_ANTI \<noteq> JoinType_other
   \<and> (\<exists>op. NewEqHashJoinerOp 1024 [] [] [0] [0] [7, 8] [7, 9] False JoinType_LEFT_ANTI = Inr op
        \<and> outCols (left (spec op)) = [0, 1] \<and> outCols (right (spec op)) = []
        \<and> rightDistinct (spec op) = False \<and> outColTypes (spec op) = Inr [7, 8])"
  using NewEqHashJoinerOp_outCols [of JoinType_LEFT_ANTI 1024 "[]" "[]" "[0]" "[0]" "[7, 8]" "[7, 9]" False]
  by auto

section \<open>Hash joiner: build\<close>


text \<open>
  C8 as stated fails for \<^verbatim>\<open>buildRowMatched\<close>: with two build rows the array has two
  entries, so that index \<^verbatim>\<open>vals.length\<close> is not covered.
\<close>

theorem build_buildRowMatched_counterexample:
  "Option.bind
     (demo_op JoinType_RIGHT_OUTER False [] [demo_batch 2 [[1, 1], [10, 11]]])
     (after_build demo_externs)
   = Some (2, [0, 0, 0], [False, False, False], [False, False], hjProbing)
   \<and> \<not> 2 < length [False, False]"
  by (simp add: demo_op_def after_build_def NewEqHashJoinerOp_def Init_def newHashJoinProber_def
      outColTypes_def build_def demo_externs_def append_batch_def allocateVisited_def demo_batch_def Length_def
      NewMemBatch_def hjBuilding_def hjProbing_def upt_rec numeral_2_eq_2 numeral_3_eq_3)

text \<open>
  C8, amended. After the build source is drained, \<^verbatim>\<open>build\<close> allocates, when
  \<^verbatim>\<open>rightDistinct\<close> is false, \<^verbatim>\<open>same\<close> and \<^verbatim>\<open>visited\<close> of size \<^verbatim>\<open>vals.length + 1\<close>
  (indices 0 to \<^verbatim>\<open>vals.length\<close>), both zero-initialized, and, when the right side is outer,
  a zero-initialized \<^verbatim>\<open>buildRowMatched\<close> of size \<^verbatim>\<open>vals.length\<close> (indices 0 to
  \<^verbatim>\<open>vals.length - 1\<close>); it then puts the operator into the probing state.
\<close>

theorem build_allocates:
  assumes "ht hj = Some h" and "prober hj = Some p"
    and "x_ht_build ext h (inputTwo hj) = (h1, src)"
  shows "\<exists>hj' h' p'. build ext hj = Inr hj' \<and> ht hj' = Some h' \<and> prober hj' = Some p'
     \<and> runningState hj' = hjProbing \<and> inputTwo hj' = src
     \<and> ht_vals_length h' = ht_vals_length h1
     \<and> (if rightDistinct (spec hj) then h' = h1
         else length (ht_same h') = ht_vals_length h1 + 1
           \<and> ht_same h' = replicate (ht_vals_length h1 + 1) 0
           \<and> length (ht_visited h') = ht_vals_length h1 + 1
           \<and> ht_visited h' = replicate (ht_vals_length h1 + 1) False)
     \<and> (if outer (right (spec hj))
         then length (buildRowMatched p') = ht_vals_length h1
           \<and> buildRowMatched p' = replicate (ht_vals_length h1) False
         else p' = p)"
  using assms
  by (simp add: build_def allocateVisited_def Let_def)

theorem build_allocates_witness:
  "\<exists>hj' h' p'.
     build demo_externs (the (demo_op JoinType_FULL_OUTER False [] [demo_batch 2 [[1, 1], [10, 11]]]))
       = Inr hj'
   \<and> ht hj' = Some h' \<and> prober hj' = Some p'
   \<and> runningState hj' = hjProbing
   \<and> ht_vals_length h' = 2
   \<and> ht_same h' = [0, 0, 0] \<and> ht_visited h' = [False, False, False]
   \<and> buildRowMatched p' = [False, False]"
proof -
  let ?hj = "the (demo_op JoinType_FULL_OUTER False [] [demo_batch 2 [[1, 1], [10, 11]]])"
  let ?h = "the (ht ?hj)"
  let ?p = "the (prober ?hj)"
  let ?h1 = "append_batch ?h (demo_batch 2 [[1, 1], [10, 11]])"
  have h: "ht ?hj = Some ?h" by code_simp
  have p: "prober ?hj = Some ?p" by code_simp
  have b: "x_ht_build demo_externs ?h (inputTwo ?hj) = (?h1, [])" by code_simp
  have sp: "rightDistinct (spec ?hj) = False" "outer (right (spec ?hj)) = True"
    "ht_vals_length ?h1 = 2"
    by code_simp+
  from build_allocates [OF h p b] show ?thesis
    unfolding sp by (auto simp: numeral_3_eq_3 numeral_2_eq_2)
qed

section \<open>Hash joiner: the state machine of Next\<close>

lemma emitUnmatched_state:
  "emitUnmatched ext hj = Inr hj2 \<Longrightarrow>
     runningState hj2 = runningState hj \<and> spec hj2 = spec hj \<and> prober hj2 \<noteq> None
     \<and> ht hj2 = ht hj \<and> inputOne hj2 = inputOne hj"
  by (auto simp: emitUnmatched_def Let_def split: option.splits sum.splits prod.splits)

lemma states_distinct [simp]:
  "hjProbing \<noteq> hjBuilding" "hjEmittingUnmatched \<noteq> hjBuilding" "hjEmittingUnmatched \<noteq> hjProbing"
  "hjBuilding \<noteq> hjProbing" "hjBuilding \<noteq> hjEmittingUnmatched" "hjProbing \<noteq> hjEmittingUnmatched"
  by (simp_all add: hjBuilding_def hjProbing_def hjEmittingUnmatched_def)

lemma Next_loop_emitting:
  "runningState hj = hjEmittingUnmatched \<Longrightarrow>
   Next_loop ext hj =
     (case emitUnmatched ext hj of
        Inl e \<Rightarrow> Some (Inl e)
      | Inr hj1 \<Rightarrow>
          (case prober hj1 of
             Some p1 \<Rightarrow> Some (Inr (batch p1, hj1))
           | None \<Rightarrow> Some (Inl (Nil NilPointerDereference))))"
  by (subst Next_loop.simps) simp

lemma Next_loop_probing:
  "runningState hj = hjProbing \<Longrightarrow> ht hj = Some h \<Longrightarrow> prober hj = Some p \<Longrightarrow>
   Next_loop ext hj =
     (case exec ext h p (inputOne hj) of
        None \<Rightarrow> None
      | Some (Inl e) \<Rightarrow> Some (Inl (Panic e))
      | Some (Inr (h1, p1, src)) \<Rightarrow>
          let hj1 = hj\<lparr>inputOne := src, ht := Some h1, prober := Some p1\<rparr> in
          if Length (batch p1) = 0 \<and> outer (right (spec hj1)) then
            Next_loop ext (hj1\<lparr>runningState := hjEmittingUnmatched\<rparr>)
          else Some (Inr (batch p1, hj1)))"
  by (subst Next_loop.simps) simp

text \<open>
  C5. A call of \<^verbatim>\<open>Next\<close> in the probing state, in which \<^verbatim>\<open>exec\<close> returns. If the prober's
  batch is empty and the right side is outer (which the constructor sets exactly for right
  and full outer joins), the operator goes to the state emitting unmatched rows and the
  call continues with \<^verbatim>\<open>emitUnmatched\<close>. Otherwise the call returns the prober's batch,
  empty or not, and the operator stays in the probing state.
\<close>

theorem Next_probing_transitions:
  assumes "runningState hj = hjProbing" and "ht hj = Some h" and "prober hj = Some p"
    and "exec ext h (p\<lparr>batch := x_ResetInternalBatch ext (batch p)\<rparr>) (inputOne hj)
           = Some (Inr (h1, p1, src))"
  shows "(if Length (batch p1) = 0 \<and> outer (right (spec hj)) then
            Next ext hj =
              (case emitUnmatched ext
                      (hj\<lparr>inputOne := src, ht := Some h1, prober := Some p1,
                          runningState := hjEmittingUnmatched\<rparr>) of
                 Inl e \<Rightarrow> Some (Inl e)
               | Inr hj2 \<Rightarrow>
                   (case prober hj2 of
                      Some p2 \<Rightarrow> Some (Inr (batch p2, hj2))
                    | None \<Rightarrow> Some (Inl (Nil NilPointerDereference))))
            \<and> (\<forall>b hj2. Next ext hj = Some (Inr (b, hj2)) \<longrightarrow>
                  runningState hj2 = hjEmittingUnmatched)
          else
            Next ext hj = Some (Inr (batch p1, hj\<lparr>inputOne := src, ht := Some h1, prober := Some p1\<rparr>))
            \<and> runningState (hj\<lparr>inputOne := src, ht := Some h1, prober := Some p1\<rparr>) = hjProbing)
     \<and> (\<forall>B ls rs le re lt rt rd jt op. NewEqHashJoinerOp B ls rs le re lt rt rd jt = Inr op \<longrightarrow>
           outer (right (spec op)) = (jt = JoinType_RIGHT_OUTER \<or> jt = JoinType_FULL_OUTER))"
proof -
  let ?hj0 = "hj\<lparr>prober := Some (p\<lparr>batch := x_ResetInternalBatch ext (batch p)\<rparr>)\<rparr>"
  let ?hj1 = "hj\<lparr>inputOne := src, ht := Some h1, prober := Some p1\<rparr>"
  have n: "Next ext hj = Next_loop ext ?hj0"
    by (simp add: Next_def assms)
  have l: "Next_loop ext ?hj0 =
      (if Length (batch p1) = 0 \<and> outer (right (spec hj)) then
         Next_loop ext (?hj1\<lparr>runningState := hjEmittingUnmatched\<rparr>)
       else Some (Inr (batch p1, ?hj1)))"
    by (subst Next_loop_probing [where h = h and p = "p\<lparr>batch := x_ResetInternalBatch ext (batch p)\<rparr>"])
       (simp_all add: assms)
  have e: "Next_loop ext (?hj1\<lparr>runningState := hjEmittingUnmatched\<rparr>) =
      (case emitUnmatched ext (?hj1\<lparr>runningState := hjEmittingUnmatched\<rparr>) of
        Inl e \<Rightarrow> Some (Inl e)
      | Inr hj2 \<Rightarrow>
          (case prober hj2 of
             Some p2 \<Rightarrow> Some (Inr (batch p2, hj2))
           | None \<Rightarrow> Some (Inl (Nil NilPointerDereference))))"
    by (rule Next_loop_emitting) simp
  have c: "outer (right (spec op)) = (jt = JoinType_RIGHT_OUTER \<or> jt = JoinType_FULL_OUTER)"
    if "NewEqHashJoinerOp B ls rs le re lt rt rd jt = Inr op" for B ls rs le re lt rt rd jt op
    using that by (cases jt) (auto simp: NewEqHashJoinerOp_def)
  show ?thesis
  proof (cases "Length (batch p1) = 0 \<and> outer (right (spec hj))")
    case True
    have st: "runningState hj2 = hjEmittingUnmatched" if "Next ext hj = Some (Inr (b, hj2))" for b hj2
      using that True emitUnmatched_state [of ext "?hj1\<lparr>runningState := hjEmittingUnmatched\<rparr>"]
      unfolding n l e
      by (auto split: sum.splits option.splits)
    show ?thesis
      using True st c unfolding n l e by auto
  next
    case False
    then show ?thesis
      using c assms(1) unfolding n l by auto
  qed
qed

theorem Next_probing_transitions_witness:
  "\<exists>b hj2.
     Next demo_externs
       (the (demo_built JoinType_RIGHT_OUTER False [] [demo_batch 2 [[1, 1], [10, 11]]]))
       = Some (Inr (b, hj2))
     \<and> Length b = 2 \<and> runningState hj2 = hjEmittingUnmatched
     \<and> runningState (the (demo_built JoinType_RIGHT_OUTER False [] [demo_batch 2 [[1, 1], [10, 11]]]))
          = hjProbing"
proof -
  let ?hj = "the (demo_built JoinType_RIGHT_OUTER False [] [demo_batch 2 [[1, 1], [10, 11]]])"
  let ?h = "the (ht ?hj)"
  let ?p = "the (prober ?hj)"
  let ?p1 = "?p\<lparr>batch := SetLength 0 (x_ResetInternalBatch demo_externs (batch ?p))\<rparr>"
  have st: "runningState ?hj = hjProbing" by code_simp
  have h: "ht ?hj = Some ?h" by code_simp
  have p: "prober ?hj = Some ?p" by code_simp
  have ex: "exec demo_externs ?h (?p\<lparr>batch := x_ResetInternalBatch demo_externs (batch ?p)\<rparr>) (inputOne ?hj)
      = Some (Inr (?h, ?p1, []))" by code_simp
  have c: "(Length (batch ?p1) = 0 \<and> outer (right (spec ?hj))) = True" by code_simp
  let ?hj1 = "?hj\<lparr>inputOne := [], ht := Some ?h, prober := Some ?p1,
                          runningState := hjEmittingUnmatched\<rparr>"
  have em: "(case emitUnmatched demo_externs ?hj1 of Inl e \<Rightarrow> False
      | Inr hj2 \<Rightarrow> (case prober hj2 of Some p2 \<Rightarrow> Length (batch p2) = 2 | None \<Rightarrow> False)) = True"
    by code_simp
  from Next_probing_transitions [OF st h p ex] em st show ?thesis
    unfolding c by (auto split: sum.splits option.splits)
qed

section \<open>Hash joiner: congregate on an empty table\<close>


lemma set_unmatched_nulls_upto:
  "foldl (\<lambda>v i. if u ! i then SetNull i v else v) v [0..<n] =
     v\<lparr>vec_nulls := vec_nulls v \<union> {i. i < n \<and> u ! i}\<rparr>"
proof (induction n)
  case 0
  then show ?case by simp
next
  case (Suc n)
  have "{i. i < Suc n \<and> u ! i} = (if u ! n then insert n {i. i < n \<and> u ! i} else {i. i < n \<and> u ! i})"
    by (auto simp: less_Suc_eq)
  with Suc show ?case by (simp add: SetNull_def)
qed

lemma set_unmatched_nulls_eq:
  "set_unmatched_nulls u v = v\<lparr>vec_nulls := vec_nulls v \<union> {i. i < length u \<and> u ! i}\<rparr>"
  unfolding set_unmatched_nulls_def by (rule set_unmatched_nulls_upto)

lemma null_right_cols_result:
  "null_right_cols u off is cols = Inr cols' \<Longrightarrow> distinct is \<Longrightarrow>
   length cols' = length cols \<and>
   (\<forall>j<length cols. cols' ! j =
      (if \<exists>i\<in>set is. j = i + off then set_unmatched_nulls u (cols ! j) else cols ! j))"
proof (induction "is" arbitrary: cols)
  case Nil
  then show ?case by simp
next
  case (Cons i "is")
  from Cons.prems have lt: "i + off < length cols"
    and rec: "null_right_cols u off is (cols[i + off := set_unmatched_nulls u (cols ! (i + off))]) = Inr cols'"
    and d: "distinct is" and ni: "i \<notin> set is"
    by (auto split: if_splits)
  from Cons.IH [OF rec d] show ?case
    using lt ni by (auto simp: nth_list_update)
qed

lemma null_right_cols_total:
  "\<forall>i\<in>set is. i + off < length cols \<Longrightarrow> \<exists>cols'. null_right_cols u off is cols = Inr cols'"
  by (induction "is" arbitrary: cols) auto

lemma copy_cols_length:
  "copy_cols cp mk is k dst = Inr dst' \<Longrightarrow> length dst' = length dst"
  by (induction "is" arbitrary: k dst) (auto split: if_splits sum.splits)

lemma copy_cols_total:
  "\<forall>c\<in>set is. \<exists>a. mk c = Inr a \<Longrightarrow> k + length is \<le> length dst \<Longrightarrow>
   \<exists>dst'. copy_cols cp mk is k dst = Inr dst'"
proof (induction "is" arbitrary: k dst)
  case Nil
  then show ?case by simp
next
  case (Cons c "is")
  from Cons.prems obtain a where a: "mk c = Inr a" by auto
  from Cons.prems have k: "k < length dst" by simp
  from Cons.prems have "\<exists>dst'. copy_cols cp mk is (Suc k) (dst[k := cp a (dst ! k)]) = Inr dst'"
    by (intro Cons.IH) auto
  with a k show ?case by simp
qed

lemma mark_matched_length:
  "mark_matched lo u bidx is m = Inr m' \<Longrightarrow> length m' = length m"
  by (induction "is" arbitrary: m) (auto split: if_splits)


lemma congregate_empty_cols:
  assumes e: "ht_vals_length h = 0" and c: "congregate ext h p n b bs = Inr p'"
  defines "off \<equiv> length (outCols (left (prober_spec p)))"
  shows "length (ColVecs (batch p')) = length (ColVecs (batch p))"
    and "off \<le> j \<Longrightarrow> j < length (ColVecs (batch p)) \<Longrightarrow>
         ColVecs (batch p') ! j =
           (if outer (left (prober_spec p)) \<and> j < off + length (ht_outCols h)
            then set_unmatched_nulls (probeRowUnmatched p) (ColVecs (batch p) ! j)
            else ColVecs (batch p) ! j)"
    and "Length (batch p') = n"
proof -
  let ?cols = "ColVecs (batch p)"
  from c e obtain cols2 dst dst' matched where
    n2: "(if outer (left (prober_spec p))
           then null_right_cols (probeRowUnmatched p) off [0..<length (ht_outCols h)] ?cols
           else Inr ?cols) = Inr cols2"
    and sl: "slice_range cols2 0 off = Inr dst"
    and cp: "copy_cols (x_Copy ext) (probe_args p b n) (outCols (left (prober_spec p))) 0 dst = Inr dst'"
    and res: "p' = p\<lparr>batch := (batch p)\<lparr>batch_cols := put_range cols2 0 dst'\<rparr>,
                    buildRowMatched := matched,
                    batch := SetLength n ((batch p)\<lparr>batch_cols := put_range cols2 0 dst'\<rparr>)\<rparr>"
    unfolding congregate_def off_def
    by (auto simp: Let_def split: sum.splits if_splits)
  have l2: "length cols2 = length ?cols"
    and v2: "\<And>j. j < length ?cols \<Longrightarrow> cols2 ! j =
       (if outer (left (prober_spec p)) \<and> off \<le> j \<and> j < off + length (ht_outCols h)
        then set_unmatched_nulls (probeRowUnmatched p) (?cols ! j) else ?cols ! j)"
  proof -
    show "length cols2 = length ?cols"
      using n2 null_right_cols_result [of "probeRowUnmatched p" off "[0..<length (ht_outCols h)]" ?cols cols2]
      by (auto split: if_splits)
    fix j assume j: "j < length ?cols"
    have ex: "(\<exists>i\<in>{0..<length (ht_outCols h)}. j = i + off) \<longleftrightarrow>
        off \<le> j \<and> j < off + length (ht_outCols h)"
      by (auto intro: bexI [of _ "j - off"])
    show "cols2 ! j =
       (if outer (left (prober_spec p)) \<and> off \<le> j \<and> j < off + length (ht_outCols h)
        then set_unmatched_nulls (probeRowUnmatched p) (?cols ! j) else ?cols ! j)"
    proof (cases "outer (left (prober_spec p))")
      case True
      with n2 have "null_right_cols (probeRowUnmatched p) off [0..<length (ht_outCols h)] ?cols = Inr cols2"
        by simp
      from null_right_cols_result [OF this] j show ?thesis
        using True by (simp add: ex)
    next
      case False
      with n2 show ?thesis by simp
    qed
  qed
  from sl have dst: "dst = take off cols2" and offle: "off \<le> length cols2"
    by (auto simp: slice_range_def split: if_splits)
  from copy_cols_length [OF cp] dst offle have ld: "length dst' = off" by simp
  have pr: "put_range cols2 0 dst' = dst' @ drop off cols2"
    by (simp add: put_range_def ld)
  have cols': "ColVecs (batch p') = dst' @ drop off cols2"
    by (simp add: res ColVecs_def SetLength_def pr)
  show "length (ColVecs (batch p')) = length ?cols"
    using offle by (simp add: cols' ld l2)
  show "Length (batch p') = n"
    by (simp add: res Length_def SetLength_def)
  show "ColVecs (batch p') ! j =
           (if outer (left (prober_spec p)) \<and> j < off + length (ht_outCols h)
            then set_unmatched_nulls (probeRowUnmatched p) (?cols ! j)
            else ?cols ! j)" if "off \<le> j" "j < length ?cols"
    using that v2 [OF that(2)] offle
    by (simp add: cols' nth_append ld l2)
qed


lemma congregate_empty_independent:
  "ht_vals_length h = 0 \<Longrightarrow>
   congregate ext (h\<lparr>ht_vals_colVecs := cv, ht_valTypes := vt\<rparr>) p n b bs = congregate ext h p n b bs"
  by (simp add: congregate_def)

lemma congregate_empty_total:
  assumes e: "ht_vals_length h = 0"
    and ro: "\<not> outer (right (prober_spec p))"
    and sz: "length (outCols (left (prober_spec p))) + length (ht_outCols h) \<le> length (ColVecs (batch p))"
    and ix: "\<forall>c\<in>set (outCols (left (prober_spec p))).
               c < length (batch_cols b) \<and> c < length (sourceTypes (left (prober_spec p)))"
  shows "\<exists>p'. congregate ext h p n b bs = Inr p'"
proof -
  let ?off = "length (outCols (left (prober_spec p)))"
  let ?cols = "ColVecs (batch p)"
  obtain cols2 where n2: "(if outer (left (prober_spec p))
           then null_right_cols (probeRowUnmatched p) ?off [0..<length (ht_outCols h)] ?cols
           else Inr ?cols) = Inr cols2" and l2: "length cols2 = length ?cols"
  proof (cases "outer (left (prober_spec p))")
    case True
    from sz have "\<forall>i\<in>set [0..<length (ht_outCols h)]. i + ?off < length ?cols" by auto
    from null_right_cols_total [OF this] obtain cols2
      where r: "null_right_cols (probeRowUnmatched p) ?off [0..<length (ht_outCols h)] ?cols = Inr cols2"
      by blast
    from null_right_cols_result [OF r] have "length cols2 = length ?cols" by simp
    with r True that show ?thesis by simp
  next
    case False
    with that show ?thesis by simp
  qed
  from sz l2 have sl: "slice_range cols2 0 ?off = Inr (take ?off cols2)"
    by (simp add: slice_range_def)
  have mk: "\<forall>c\<in>set (outCols (left (prober_spec p))). \<exists>a. probe_args p b n c = Inr a"
    using ix by (auto simp: probe_args_def ColVec_def)
  from sz l2 have "0 + length (outCols (left (prober_spec p))) \<le> length (take ?off cols2)" by simp
  from copy_cols_total [OF mk this] obtain dst'
    where cp: "copy_cols (x_Copy ext) (probe_args p b n) (outCols (left (prober_spec p))) 0
       (take ?off cols2) = Inr dst'" by blast
  show ?thesis
    using e ro n2 sl cp
    by (simp add: congregate_def Let_def split: if_splits)
qed

text \<open>
  C7. \<^verbatim>\<open>congregate\<close> on an empty hash table (\<^verbatim>\<open>vals.length == 0\<close>). The build side is not
  projected: the call does not depend on the rows and types stored in the table, and the
  data of every right output column of the batch is left as it was. For a left outer join
  the null bits of every right output column are set at every position where
  \<^verbatim>\<open>probeRowUnmatched\<close> is true (and no other null bit changes). The call returns, for a
  join that is not outer on the right, whenever the batch has all output columns and the
  left output columns exist in the probe batch.
\<close>

theorem congregate_empty_build:
  assumes "ht_vals_length h = 0"
  shows "(\<forall>p' j. congregate ext h p n b bs = Inr p'
            \<and> length (outCols (left (prober_spec p))) \<le> j
            \<and> j < length (outCols (left (prober_spec p))) + length (ht_outCols h)
            \<and> j < length (ColVecs (batch p)) \<longrightarrow>
          vec_data (ColVecs (batch p') ! j) = vec_data (ColVecs (batch p) ! j)
          \<and> vec_nulls (ColVecs (batch p') ! j) =
              vec_nulls (ColVecs (batch p) ! j)
                \<union> (if outer (left (prober_spec p))
                   then {i. i < length (probeRowUnmatched p) \<and> probeRowUnmatched p ! i} else {})
          \<and> Length (batch p') = n)
     \<and> (\<forall>cv vt. congregate ext (h\<lparr>ht_vals_colVecs := cv, ht_valTypes := vt\<rparr>) p n b bs
           = congregate ext h p n b bs)
     \<and> (\<not> outer (right (prober_spec p))
         \<and> length (outCols (left (prober_spec p))) + length (ht_outCols h)
             \<le> length (ColVecs (batch p))
         \<and> (\<forall>c\<in>set (outCols (left (prober_spec p))).
               c < length (batch_cols b) \<and> c < length (sourceTypes (left (prober_spec p)))) \<longrightarrow>
         (\<exists>p'. congregate ext h p n b bs = Inr p'))"
proof (intro conjI allI impI)
  fix p' j
  assume a: "congregate ext h p n b bs = Inr p'
            \<and> length (outCols (left (prober_spec p))) \<le> j
            \<and> j < length (outCols (left (prober_spec p))) + length (ht_outCols h)
            \<and> j < length (ColVecs (batch p))"
  note r = congregate_empty_cols [OF assms a [THEN conjunct1]]
  from r(2) [of j] a
  have col: "ColVecs (batch p') ! j =
       (if outer (left (prober_spec p))
        then set_unmatched_nulls (probeRowUnmatched p) (ColVecs (batch p) ! j)
        else ColVecs (batch p) ! j)" by simp
  show "vec_data (ColVecs (batch p') ! j) = vec_data (ColVecs (batch p) ! j)"
    by (simp add: col set_unmatched_nulls_eq)
  show "vec_nulls (ColVecs (batch p') ! j) =
              vec_nulls (ColVecs (batch p) ! j)
                \<union> (if outer (left (prober_spec p))
                   then {i. i < length (probeRowUnmatched p) \<and> probeRowUnmatched p ! i} else {})"
    by (simp add: col set_unmatched_nulls_eq)
  show "Length (batch p') = n" by (rule r(3))
next
  fix cv vt
  show "congregate ext (h\<lparr>ht_vals_colVecs := cv, ht_valTypes := vt\<rparr>) p n b bs
           = congregate ext h p n b bs"
    by (rule congregate_empty_independent [OF assms])
next
  assume "\<not> outer (right (prober_spec p))
         \<and> length (outCols (left (prober_spec p))) + length (ht_outCols h)
             \<le> length (ColVecs (batch p))
         \<and> (\<forall>c\<in>set (outCols (left (prober_spec p))).
               c < length (batch_cols b) \<and> c < length (sourceTypes (left (prober_spec p))))"
  then show "\<exists>p'. congregate ext h p n b bs = Inr p'"
    using congregate_empty_total [OF assms] by blast
qed


theorem congregate_empty_build_witness:
  "\<exists>p'. congregate demo_externs
       (the (ht (the (demo_built JoinType_LEFT_OUTER False [demo_batch 1 [[1], [97]]] []))))
       (snd (snd (collect_unmatched
          (the (ht (the (demo_built JoinType_LEFT_OUTER False [demo_batch 1 [[1], [97]]] []))))
          (the (prober (the (demo_built JoinType_LEFT_OUTER False [demo_batch 1 [[1], [97]]] []))))
          (demo_batch 1 [[1], [97]]) 1 None)))
       1 (demo_batch 1 [[1], [97]]) 1 = Inr p'
     \<and> ht_vals_length
          (the (ht (the (demo_built JoinType_LEFT_OUTER False [demo_batch 1 [[1], [97]]] [])))) = 0
     \<and> 0 \<in> vec_nulls (ColVecs (batch p') ! 2) \<and> 0 \<in> vec_nulls (ColVecs (batch p') ! 3)
     \<and> vec_data (ColVecs (batch p') ! 2) = [0, 0, 0, 0]
     \<and> Length (batch p') = 1"
proof -
  let ?hj = "the (demo_built JoinType_LEFT_OUTER False [demo_batch 1 [[1], [97]]] [])"
  let ?h = "the (ht ?hj)"
  let ?b = "demo_batch 1 [[1], [97]]"
  let ?p = "snd (snd (collect_unmatched ?h (the (prober ?hj)) ?b 1 None))"
  have e: "ht_vals_length ?h = 0" by code_simp
  have wf: "\<not> outer (right (prober_spec ?p))
         \<and> length (outCols (left (prober_spec ?p))) + length (ht_outCols ?h)
             \<le> length (ColVecs (batch ?p))
         \<and> (\<forall>c\<in>set (outCols (left (prober_spec ?p))).
               c < length (batch_cols ?b) \<and> c < length (sourceTypes (left (prober_spec ?p))))"
    by code_simp
  have f: "length (outCols (left (prober_spec ?p))) = 2" "length (ht_outCols ?h) = 2"
    "length (ColVecs (batch ?p)) = 4" "outer (left (prober_spec ?p)) = True"
    "probeRowUnmatched ?p = [True, False, False, False]"
    "vec_data (ColVecs (batch ?p) ! 2) = [0, 0, 0, 0]"
    by code_simp+
  note t = congregate_empty_build [OF e, of demo_externs ?p 1 ?b 1]
  from t wf obtain p' where c: "congregate demo_externs ?h ?p 1 ?b 1 = Inr p'" by blast
  from t have
    "\<And>j. length (outCols (left (prober_spec ?p))) \<le> j
       \<and> j < length (outCols (left (prober_spec ?p))) + length (ht_outCols ?h)
       \<and> j < length (ColVecs (batch ?p)) \<Longrightarrow>
       vec_data (ColVecs (batch p') ! j) = vec_data (ColVecs (batch ?p) ! j)
       \<and> vec_nulls (ColVecs (batch p') ! j) =
              vec_nulls (ColVecs (batch ?p) ! j)
                \<union> (if outer (left (prober_spec ?p))
                   then {i. i < length (probeRowUnmatched ?p) \<and> probeRowUnmatched ?p ! i} else {})
       \<and> Length (batch p') = 1"
    using c by blast
  from this [of 2] this [of 3] have
    "0 \<in> vec_nulls (ColVecs (batch p') ! 2)" "0 \<in> vec_nulls (ColVecs (batch p') ! 3)"
    "vec_data (ColVecs (batch p') ! 2) = [0, 0, 0, 0]" "Length (batch p') = 1"
    unfolding f by auto
  with c e show ?thesis by blast
qed

end
